theory Spec2Isabelle
  imports Main "HOL-Library.Sublist"
begin

section \<open>Runes and UTF-8\<close>

text \<open>
  A Go string is a sequence of bytes, and so is an Isabelle \<open>string\<close>. The scanner
  reads it rune by rune through \<open>utf8.DecodeRuneInString\<close>; a rune is an integer, and the
  scanner's end-of-input sentinel \<open>eof\<close> is \<open>-1\<close>.
\<close>

type_synonym rune = int

definition eof :: rune where
  "eof = - 1"

definition RuneError :: rune where
  "RuneError = 65533"

definition runeOf :: "char \<Rightarrow> rune" where
  "runeOf c = int (of_char c)"

definition contByte :: "nat \<Rightarrow> bool" where
  "contByte b = (128 \<le> b \<and> b \<le> 191)"

text \<open>
  The range of the second byte that the Go decoder accepts after the first byte \<open>b0\<close>
  of a three-byte or four-byte encoding (the table \<open>acceptRanges\<close>).
\<close>

definition acceptLo :: "nat \<Rightarrow> nat" where
  "acceptLo b0 = (if b0 = 224 then 160 else if b0 = 240 then 144 else 128)"

definition acceptHi :: "nat \<Rightarrow> nat" where
  "acceptHi b0 = (if b0 = 237 then 159 else if b0 = 244 then 143 else 191)"

text \<open>
  \<open>utf8.DecodeRuneInString\<close>: the first rune of the string and its width in bytes;
  an invalid or truncated encoding is \<open>RuneError\<close> of width 1, the empty string
  \<open>RuneError\<close> of width 0.
\<close>

definition byteAt :: "string \<Rightarrow> nat \<Rightarrow> nat" where
  "byteAt s i = (case drop i s of [] \<Rightarrow> 0 | c # cs \<Rightarrow> of_char c)"

definition DecodeRuneInString :: "string \<Rightarrow> rune \<times> nat" where
  "DecodeRuneInString s =
     (if length s < 1 then (RuneError, 0)
      else
        (let b0 = byteAt s 0 in
         if b0 < 128 then (int b0, 1)
         else if b0 < 194 \<or> 244 < b0 then (RuneError, 1)
         else
           (let sz = (if b0 < 224 then 2 else if b0 < 240 then 3 else (4::nat));
                b1 = byteAt s 1; b2 = byteAt s 2; b3 = byteAt s 3
            in if length s < sz then (RuneError, 1)
               else if b1 < acceptLo b0 \<or> acceptHi b0 < b1 then (RuneError, 1)
               else if sz \<le> 2 then (int ((b0 mod 32) * 64 + b1 mod 64), 2)
               else if \<not> contByte b2 then (RuneError, 1)
               else if sz \<le> 3
               then (int ((b0 mod 16) * 4096 + (b1 mod 64) * 64 + b2 mod 64), 3)
               else if \<not> contByte b3 then (RuneError, 1)
               else (int ((b0 mod 8) * 262144 + (b1 mod 64) * 4096
                          + (b2 mod 64) * 64 + b3 mod 64), 4))))"

text \<open>
  The UTF-8 encoding of a rune, as \<open>string(r)\<close> and the verb \<open>%c\<close> of \<open>fmt\<close> produce it:
  a rune that is no Unicode scalar value is encoded as \<open>RuneError\<close>.
\<close>

definition encodeRune :: "rune \<Rightarrow> string" where
  "encodeRune r =
     (let n = nat r in
      if r < 0 \<or> 1114111 < r \<or> (55296 \<le> r \<and> r \<le> 57343)
      then [char_of (239::nat), char_of (191::nat), char_of (189::nat)]
      else if n < 128 then [char_of n]
      else if n < 2048 then [char_of (192 + n div 64), char_of (128 + n mod 64)]
      else if n < 65536
      then [char_of (224 + n div 4096), char_of (128 + (n div 64) mod 64),
            char_of (128 + n mod 64)]
      else [char_of (240 + n div 262144), char_of (128 + (n div 4096) mod 64),
            char_of (128 + (n div 64) mod 64), char_of (128 + n mod 64)])"

text \<open>Decimal printing, as the verb \<open>%v\<close> prints an integer.\<close>

function showNat :: "nat \<Rightarrow> string" where
  "showNat n = (if n < 10 then [char_of (48 + n)] else showNat (n div 10) @ [char_of (48 + n mod 10)])"
  by pat_completeness auto
termination
  by (relation "measure id") auto

definition showInt :: "int \<Rightarrow> string" where
  "showInt i = (if i < 0 then CHR ''-'' # showNat (nat (- i)) else showNat (nat i))"

text \<open>
  The classes of package \<open>unicode\<close>. Up to Latin-1 they are written out. Beyond it Go
  consults the range tables of the Unicode standard, which belong to the Go library;
  they are a parameter of the scanner here: \<open>isLetterU\<close> and \<open>isDigitU\<close> say
  which runes above \<open>0xFF\<close> are letters and decimal digits.
\<close>

record unicode =
  isLetterU :: "rune \<Rightarrow> bool"
  isDigitU :: "rune \<Rightarrow> bool"

definition IsDigit :: "unicode \<Rightarrow> rune \<Rightarrow> bool" where
  "IsDigit U r = (if r \<le> 255 then 48 \<le> r \<and> r \<le> 57 else isDigitU U r)"

definition IsLetter :: "unicode \<Rightarrow> rune \<Rightarrow> bool" where
  "IsLetter U r =
     (if r < 0 then False
      else if r \<le> 255
      then (65 \<le> r \<and> r \<le> 90) \<or> (97 \<le> r \<and> r \<le> 122) \<or> r = 170 \<or> r = 181 \<or> r = 186
           \<or> (192 \<le> r \<and> r \<le> 214) \<or> (216 \<le> r \<and> r \<le> 246) \<or> (248 \<le> r \<and> r \<le> 255)
      else isLetterU U r)"

text \<open>A table with no letter and no digit above Latin-1, for closed examples.\<close>

definition latin1 :: unicode where
  "latin1 = \<lparr>isLetterU = (\<lambda>r. False), isDigitU = (\<lambda>r. False)\<rparr>"


section \<open>Tokens and the scanner's state\<close>

datatype itemType =
    itemError
  | itemFieldName
  | itemColon
  | itemString
  | itemURL
  | itemUnit
  | itemKey
  | itemMeter
  | itemMacro
  | itemVoice
  | itemOpenParen
  | itemCloseParen
  | itemLetter
  | itemNumber
  | itemDivide
  | itemPlus
  | itemMinus
  | itemEquals
  | itemSharp
  | itemNatural
  | itemFlat
  | itemMinor
  | itemExclamation
  | itemStar
  | itemPercent
  | itemDottedBarline
  | itemBarline
  | itemThinThickDoubleBarLine
  | itemThinThinDoubleBarLine
  | itemThickThinDoubleBarLine
  | itemStartRepeat
  | itemEndRepeat
  | itemStartEndRepeats
  | itemQuote
  | itemNewline
  | itemSpace
  | itemBackslash
  | itemGreaterThan
  | itemLessThan
  | itemComment
  | itemInvisibleRest
  | itemRest
  | itemMultiMeasureRest
  | itemChord
  | itemAnnotationPosition
  | itemAnnotation
  | itemVariantNumber
  | itemVariantComma
  | itemVariantRange
  | itemEOF

text \<open>
  The struct \<open>item\<close>, with its fields \<open>typ\<close>, \<open>pos\<close>, \<open>val\<close> and \<open>line\<close>
  (renamed: \<open>typ\<close> is a keyword of Isabelle, and \<open>pos\<close> and \<open>line\<close> are fields of the
  scanner too).
\<close>

record item =
  itemTyp :: itemType
  itemPos :: nat
  itemVal :: string
  itemLine :: int

text \<open>
  The struct \<open>lexer\<close>. The channel \<open>items\<close> is the list of the items sent so far, in
  the order they were sent. The fields \<open>name\<close> and \<open>parenDepth\<close> are never read and
  are left out.
\<close>

record lexer =
  input :: string
  pos :: nat
  start :: nat
  width :: nat
  items :: "item list"
  line :: int

text \<open>The slice \<open>s[i:j]\<close>.\<close>

definition slice :: "string \<Rightarrow> nat \<Rightarrow> nat \<Rightarrow> string" where
  "slice s i j = take (j - i) (drop i s)"

text \<open>\<open>next\<close>: the next rune of the input, \<open>eof\<close> past its end.\<close>

definition lnext :: "lexer \<Rightarrow> rune \<times> lexer" where
  "lnext l =
     (if length (input l) \<le> pos l then (eof, l\<lparr>width := 0\<rparr>)
      else
        (let (r, w) = DecodeRuneInString (drop (pos l) (input l));
             l1 = l\<lparr>width := w, pos := pos l + w\<rparr>
         in if r = 10 then (r, l1\<lparr>line := line l1 + 1\<rparr>) else (r, l1)))"

definition backup :: "lexer \<Rightarrow> lexer" where
  "backup l =
     (let l1 = l\<lparr>pos := pos l - width l\<rparr>
      in if width l1 = 1 \<and> byteAt (input l1) (pos l1) = 10
         then l1\<lparr>line := line l1 - 1\<rparr> else l1)"

definition peek :: "lexer \<Rightarrow> rune \<times> lexer" where
  "peek l = (let (r, l1) = lnext l in (r, backup l1))"

definition emit :: "itemType \<Rightarrow> lexer \<Rightarrow> lexer" where
  "emit t l =
     l\<lparr>items := items l @
          [\<lparr>itemTyp = t, itemPos = start l,
            itemVal = slice (input l) (start l) (pos l), itemLine = line l\<rparr>],
       start := pos l\<rparr>"

text \<open>\<open>strings.Count(s, "\n")\<close>.\<close>

definition countNewlines :: "string \<Rightarrow> nat" where
  "countNewlines s = length (filter (\<lambda>c. c = CHR 0x0A) s)"

definition ignore :: "lexer \<Rightarrow> lexer" where
  "ignore l =
     l\<lparr>line := line l + int (countNewlines (slice (input l) (start l) (pos l))),
       start := pos l\<rparr>"

text \<open>
  \<open>errorf\<close> sends an error item whose value is the formatted message. The \<open>nil\<close> it
  returns as the next state is the caller's to pass on.
\<close>

definition errorf :: "string \<Rightarrow> lexer \<Rightarrow> lexer" where
  "errorf msg l =
     l\<lparr>items := items l @
          [\<lparr>itemTyp = itemError, itemPos = start l, itemVal = msg, itemLine = line l\<rparr>]\<rparr>"

definition isSpace :: "rune \<Rightarrow> bool" where
  "isSpace r = (r = runeOf CHR '' '' \<or> r = 9)"

definition isEndOfLine :: "rune \<Rightarrow> bool" where
  "isEndOfLine r = (r = 13 \<or> r = 10)"

text \<open>
  \<open>strings.ContainsRune(valid, r)\<close> for a set \<open>valid\<close> of ASCII characters (the only
  one the scanner uses is the decimal digits).
\<close>

definition ContainsRune :: "string \<Rightarrow> rune \<Rightarrow> bool" where
  "ContainsRune valid r = (r \<in> set (map runeOf valid))"

lemma DecodeRuneInString_width: "s \<noteq> [] \<Longrightarrow> 0 < snd (DecodeRuneInString s)"
  by (simp add: DecodeRuneInString_def Let_def)

lemma lnext_pos:
  "lnext l = (r, l1) \<Longrightarrow> r \<noteq> eof \<Longrightarrow> pos l < length (input l) \<and> pos l < pos l1"
  using DecodeRuneInString_width [of "drop (pos l) (input l)"]
  by (auto simp: lnext_def Let_def split: if_splits prod.splits)

lemma lnext_input: "lnext l = (r, l1) \<Longrightarrow> input l1 = input l"
  by (auto simp: lnext_def Let_def split: if_splits prod.splits)

lemma ContainsRune_not_eof: "ContainsRune valid r \<Longrightarrow> r \<noteq> eof"
  by (auto simp: ContainsRune_def runeOf_def eof_def)

function acceptRun :: "string \<Rightarrow> lexer \<Rightarrow> lexer" where
  "acceptRun valid l =
     (case lnext l of (r, l1) \<Rightarrow> if ContainsRune valid r then acceptRun valid l1 else backup l1)"
  by pat_completeness auto
termination
proof (relation "measure (\<lambda>(valid, l). length (input l) - pos l)", goal_cases)
  case 1
  show ?case by simp
next
  case (2 valid l r l1)
  then have "lnext l = (r, l1)" "r \<noteq> eof"
    by (simp_all add: ContainsRune_not_eof)
  then show ?case
    using lnext_pos [of l r l1] lnext_input [of l r l1] by auto
qed

definition acceptDecimalRun :: "lexer \<Rightarrow> lexer" where
  "acceptDecimalRun l = acceptRun ''0123456789'' l"


text \<open>
  The loops of \<open>ignoreWhitespace\<close> and \<open>consumeToEndOfLine\<close> step over one byte at a
  time (\<open>l.pos++\<close>) while the rune decoded at the position is in the class; both stop at
  the end of the input, where \<open>peek\<close> returns \<open>eof\<close>.
\<close>

lemma peek_pos:
  "peek l = (r, l1) \<Longrightarrow> r \<noteq> eof \<Longrightarrow>
     pos l < length (input l) \<and> pos l1 = pos l \<and> input l1 = input l"
  by (auto simp: peek_def lnext_def backup_def Let_def split: if_splits prod.splits)

function ignoreWhitespace :: "lexer \<Rightarrow> lexer" where
  "ignoreWhitespace l =
     (case peek l of (r, l1) \<Rightarrow>
        if isSpace r then ignoreWhitespace (ignore (l1\<lparr>pos := pos l1 + 1\<rparr>)) else l1)"
  by pat_completeness auto
termination
proof (relation "measure (\<lambda>l. length (input l) - pos l)", goal_cases)
  case 1
  show ?case by simp
next
  case (2 l r l1)
  then have "peek l = (r, l1)" "r \<noteq> eof"
    by (auto simp: isSpace_def eof_def runeOf_def)
  then show ?case
    using peek_pos [of l r l1] by (auto simp: ignore_def)
qed

function consumeToEndOfLine :: "lexer \<Rightarrow> lexer" where
  "consumeToEndOfLine l =
     (case peek l of (r, l1) \<Rightarrow>
        if \<not> isEndOfLine r \<and> \<not> r = eof then consumeToEndOfLine (l1\<lparr>pos := pos l1 + 1\<rparr>)
        else l1)"
  by pat_completeness auto
termination
proof (relation "measure (\<lambda>l. length (input l) - pos l)", goal_cases)
  case 1
  show ?case by simp
next
  case (2 l r l1)
  then have "peek l = (r, l1)" "r \<noteq> eof"
    by auto
  then show ?case
    using peek_pos [of l r l1] by auto
qed

text \<open>
  \<open>acceptNewline\<close> and \<open>ignoreNewline\<close> call \<open>errorf\<close> when the next rune is no end of
  line, and return: the state \<open>errorf\<close> returns is dropped, so their callers go on.
\<close>

definition acceptNewline :: "lexer \<Rightarrow> lexer" where
  "acceptNewline l =
     (case lnext l of (r, l1) \<Rightarrow>
        if r = eof then l1
        else if \<not> isEndOfLine r then errorf (''expected newline, got '' @ showInt r) l1
        else emit itemNewline l1)"

definition ignoreNewline :: "lexer \<Rightarrow> lexer" where
  "ignoreNewline l =
     (case lnext l of (r, l1) \<Rightarrow>
        if r = eof then l1
        else if \<not> isEndOfLine r then errorf (''expected newline, got '' @ showInt r) l1
        else ignore l1)"


section \<open>The state functions of the scanner\<close>

text \<open>
  A state function of the Go scanner takes the scanner and returns the next state
  function, \<open>nil\<close> to stop. Here a state is a constructor of \<open>stateFn\<close>, \<open>nil\<close> is
  \<open>None\<close>, and each state function returns the next state with the scanner it leaves.
\<close>

datatype stateFn =
    LexLine
  | LexBodyLine
  | LexVariant
  | LexChord
  | LexAnnotation
  | LexComment
  | LexHeaderLine
  | LexNextLine
  | LexHeaderInt
  | LexHeaderString
  | LexHeaderMeter
  | LexHeaderNoteLength

text \<open>\<open>strings.HasPrefix(s, p)\<close>.\<close>

definition HasPrefix :: "string \<Rightarrow> string \<Rightarrow> bool" where
  "HasPrefix s p = prefix p s"

definition lexLine :: "lexer \<Rightarrow> stateFn option \<times> lexer" where
  "lexLine l =
     (case peek l of (r, l1) \<Rightarrow>
        if r = eof then (None, emit itemEOF l1)
        else if HasPrefix (drop (pos l1 + 1) (input l1)) '':'' then (Some LexHeaderLine, l1)
        else (Some LexBodyLine, l1))"

text \<open>
  The compound barline and repeat markers of \<open>lexBodyLine\<close>, in the order the source
  tests them, on the text \<open>s\<close> it tests: \<open>l.input[l.pos+1:]\<close>.
\<close>

definition compoundMarker :: "string \<Rightarrow> itemType option" where
  "compoundMarker s =
     (if HasPrefix s ''|]'' then Some itemThinThickDoubleBarLine
      else if HasPrefix s ''||'' then Some itemThinThinDoubleBarLine
      else if HasPrefix s ''[|'' then Some itemThickThinDoubleBarLine
      else if HasPrefix s ''|:'' then Some itemStartRepeat
      else if HasPrefix s '':|'' then Some itemEndRepeat
      else if HasPrefix s ''::'' \<or> HasPrefix s '':|:'' \<or> HasPrefix s '':||:''
      then Some itemStartEndRepeats
      else if HasPrefix s ''.|'' then Some itemDottedBarline
      else None)"

text \<open>The \<open>switch\<close> of \<open>lexBodyLine\<close> on the rune \<open>c := l.next()\<close>.\<close>

definition lexBodyChar :: "unicode \<Rightarrow> lexer \<Rightarrow> stateFn option \<times> lexer" where
  "lexBodyChar U l =
     (case lnext l of (c, l1) \<Rightarrow>
        if c = runeOf CHR ''%'' then (Some LexComment, emit itemPercent l1)
        else if isSpace c then (Some LexBodyLine, emit itemSpace l1)
        else if c = runeOf CHR ''x'' then (Some LexBodyLine, emit itemInvisibleRest l1)
        else if c = runeOf CHR ''z'' then (Some LexBodyLine, emit itemRest l1)
        else if c = runeOf CHR ''Z'' then (Some LexBodyLine, emit itemMultiMeasureRest l1)
        else if IsLetter U c then (Some LexBodyLine, emit itemLetter l1)
        else if c = runeOf CHR ''^'' then (Some LexBodyLine, emit itemSharp l1)
        else if c = runeOf CHR ''='' then (Some LexBodyLine, emit itemNatural l1)
        else if c = runeOf CHR ''_'' then (Some LexBodyLine, emit itemFlat l1)
        else if c = runeOf CHR ''/'' then (Some LexBodyLine, emit itemDivide l1)
        else if c = runeOf (CHR 0x5C) then (Some LexBodyLine, ignoreNewline (ignore l1))
        else if c = runeOf (CHR 0x22) then (Some LexChord, ignore l1)
        else if c = runeOf CHR ''|'' then (Some LexBodyLine, emit itemBarline l1)
        else if c = runeOf CHR ''+'' then (Some LexBodyLine, emit itemPlus l1)
        else if c = runeOf CHR ''<'' then (Some LexBodyLine, emit itemLessThan l1)
        else if c = runeOf CHR ''>'' then (Some LexBodyLine, emit itemGreaterThan l1)
        else if c = runeOf CHR ''-'' then (Some LexBodyLine, emit itemMinus l1)
        else if c = runeOf CHR ''[''
        then (case peek l1 of (d, l2) \<Rightarrow>
                if IsDigit U d then (Some LexVariant, ignore l2)
                else (Some LexBodyLine, errorf ''unexpected character after ['' l2))
        else if c = runeOf CHR '':'' then (Some LexBodyLine, emit itemColon l1)
        else if c = eof then (None, emit itemEOF l1)
        else (None, errorf (''unknown character: '' @ encodeRune c) l1))"

definition lexBodyLine :: "unicode \<Rightarrow> lexer \<Rightarrow> stateFn option \<times> lexer" where
  "lexBodyLine U l =
     (case peek l of (r0, l0) \<Rightarrow>
        if isEndOfLine r0 then (Some LexLine, acceptNewline l0)
        else
          (case peek l0 of (r1, l1) \<Rightarrow>
             if IsDigit U r1 then (Some LexLine, emit itemNumber (acceptDecimalRun l1))
             else
               (case (if pos l1 + 2 < length (input l1)
                      then compoundMarker (drop (pos l1 + 1) (input l1)) else None) of
                  Some t \<Rightarrow> (Some LexBodyLine, emit t (l1\<lparr>pos := pos l1 + 2\<rparr>))
                | None \<Rightarrow> lexBodyChar U l1)))"

definition lexVariant :: "lexer \<Rightarrow> stateFn option \<times> lexer" where
  "lexVariant l =
     (case peek (emit itemVariantNumber (acceptDecimalRun l)) of (r, l1) \<Rightarrow>
        if r = runeOf CHR '','' then (Some LexVariant, emit itemVariantComma (l1\<lparr>pos := pos l1 + 1\<rparr>))
        else
          (case peek l1 of (r', l2) \<Rightarrow>
             if r' = runeOf CHR ''-''
             then (Some LexVariant, emit itemVariantRange (l2\<lparr>pos := pos l2 + 1\<rparr>))
             else (Some LexLine, l2)))"

text \<open>
  The loop of \<open>lexChord\<close> and of \<open>lexAnnotation\<close>:
  \<^verbatim>\<open>for true { r := l.peek(); if r == '"' { break }; l.pos++ }\<close>.
  It has no test for the end of the input, so it is a partial function: \<open>None\<close> is the
  loop that does not return.
\<close>

partial_function (option) scanToQuote :: "lexer \<Rightarrow> lexer option" where
  "scanToQuote l =
     (case peek l of (r, l1) \<Rightarrow>
        if r = runeOf (CHR 0x22) then Some l1 else scanToQuote (l1\<lparr>pos := pos l1 + 1\<rparr>))"

declare scanToQuote.simps [code]

definition lexChord :: "lexer \<Rightarrow> (stateFn option \<times> lexer) option" where
  "lexChord l =
     (case peek l of (a, l1) \<Rightarrow>
        if a = runeOf CHR ''^'' \<or> a = runeOf CHR ''_'' \<or> a = runeOf CHR ''<''
           \<or> a = runeOf CHR ''>'' \<or> a = runeOf CHR ''@''
        then Some (Some LexAnnotation, emit itemAnnotationPosition (l1\<lparr>pos := pos l1 + 1\<rparr>))
        else
          (case scanToQuote l1 of
             None \<Rightarrow> None
           | Some l2 \<Rightarrow>
               (let l3 = emit itemChord l2
                in Some (Some LexBodyLine, ignore (l3\<lparr>pos := pos l3 + 1\<rparr>)))))"

definition lexAnnotation :: "lexer \<Rightarrow> (stateFn option \<times> lexer) option" where
  "lexAnnotation l =
     (case scanToQuote l of
        None \<Rightarrow> None
      | Some l2 \<Rightarrow>
          (let l3 = emit itemAnnotation l2
           in Some (Some LexBodyLine, ignore (l3\<lparr>pos := pos l3 + 1\<rparr>))))"

definition lexComment :: "lexer \<Rightarrow> stateFn option \<times> lexer" where
  "lexComment l = (Some LexLine, acceptNewline (emit itemComment (consumeToEndOfLine l)))"

text \<open>
  The header letters the scanner knows: the constants \<open>headerX\<close>, \<open>headerT\<close>, \<open>headerN\<close>,
  \<open>headerM\<close>, \<open>headerL\<close>, \<open>headerK\<close>, \<open>headerC\<close>, \<open>headerO\<close> and \<open>headerR\<close> of the
  source.
\<close>

definition headerX :: char where "headerX = CHR ''X''"
definition headerT :: char where "headerT = CHR ''T''"
definition headerN :: char where "headerN = CHR ''N''"
definition headerM :: char where "headerM = CHR ''M''"
definition headerL :: char where "headerL = CHR ''L''"
definition headerK :: char where "headerK = CHR ''K''"
definition headerC :: char where "headerC = CHR ''C''"
definition headerO :: char where "headerO = CHR ''O''"
definition headerR :: char where "headerR = CHR ''R''"

definition lexHeaderLine :: "lexer \<Rightarrow> stateFn option \<times> lexer" where
  "lexHeaderLine l =
     (case lnext l of (fieldName, l1) \<Rightarrow>
        (let l2 = emit itemFieldName l1;
             l3 = ignore (l2\<lparr>pos := pos l2 + 1\<rparr>)
         in if fieldName = runeOf headerX then (Some LexHeaderInt, l3)
            else if fieldName = runeOf headerT \<or> fieldName = runeOf headerN
            then (Some LexHeaderString, l3)
            else if fieldName = runeOf headerM then (Some LexHeaderMeter, l3)
            else if fieldName = runeOf headerL then (Some LexHeaderNoteLength, l3)
            else if fieldName = runeOf headerK then (Some LexHeaderString, l3)
            else if fieldName = runeOf headerC then (Some LexHeaderString, l3)
            else if fieldName = runeOf headerO then (Some LexHeaderString, l3)
            else if fieldName = runeOf headerR then (Some LexHeaderString, l3)
            else (None, errorf (''unknown header field '' @ encodeRune fieldName) l3)))"

definition lexNextLine :: "lexer \<Rightarrow> stateFn option \<times> lexer" where
  "lexNextLine l = (Some LexLine, acceptNewline (ignoreWhitespace l))"

definition lexHeaderInt :: "lexer \<Rightarrow> stateFn option \<times> lexer" where
  "lexHeaderInt l = (Some LexNextLine, emit itemNumber (acceptDecimalRun (ignoreWhitespace l)))"

definition lexHeaderString :: "lexer \<Rightarrow> stateFn option \<times> lexer" where
  "lexHeaderString l =
     (Some LexNextLine, emit itemString (consumeToEndOfLine (ignoreWhitespace l)))"

text \<open>
  The body of the loop of \<open>lexHeaderMeter\<close>, after \<open>l.pos++\<close>, for the rune \<open>c\<close> peeked
  before it. The loop runs until an end of line is peeked; at the end of the input it
  peeks \<open>eof\<close>, which is no end of line and matches no case, so the loop is partial.
\<close>

definition meterChar :: "unicode \<Rightarrow> rune \<Rightarrow> lexer \<Rightarrow> lexer" where
  "meterChar U c l =
     (if IsDigit U c then emit itemNumber (acceptDecimalRun l)
      else if c = runeOf CHR ''('' then emit itemOpenParen l
      else if c = runeOf CHR '')'' then emit itemCloseParen l
      else if c = runeOf CHR ''+'' then emit itemPlus l
      else if c = runeOf CHR ''/'' then emit itemDivide l
      else l)"

partial_function (option) meterLoop :: "unicode \<Rightarrow> lexer \<Rightarrow> lexer option" where
  "meterLoop U l =
     (case peek l of (c, l1) \<Rightarrow>
        if isEndOfLine c then Some l1
        else meterLoop U (meterChar U c (l1\<lparr>pos := pos l1 + 1\<rparr>)))"

declare meterLoop.simps [code]

definition lexHeaderMeter :: "unicode \<Rightarrow> lexer \<Rightarrow> (stateFn option \<times> lexer) option" where
  "lexHeaderMeter U l =
     (case meterLoop U (ignoreWhitespace l) of
        None \<Rightarrow> None
      | Some l1 \<Rightarrow> Some (Some LexNextLine, l1))"


text \<open>
  The loop of \<open>lexHeaderNoteLength\<close> leaves through a \<open>return\<close> for a letter and for a
  rune it does not know (\<open>eof\<close> is one), so it ends on every input.
\<close>

lemma lnext_backup:
  "lnext l = (r, l1) \<Longrightarrow> pos (backup l1) = pos l \<and> input (backup l1) = input l"
  by (auto simp: lnext_def backup_def Let_def split: if_splits prod.splits)

lemma lnext_pos_le: "lnext l = (r, l1) \<Longrightarrow> pos l \<le> pos l1"
  by (auto simp: lnext_def Let_def split: if_splits prod.splits)

lemma acceptRun_pos:
  "pos l \<le> pos (acceptRun valid l) \<and> input (acceptRun valid l) = input l"
proof (induction valid l rule: acceptRun.induct)
  case (1 valid l)
  obtain r l1 where n: "lnext l = (r, l1)"
    by (cases "lnext l")
  show ?case
  proof (cases "ContainsRune valid r")
    case True
    with 1 n have "pos l1 \<le> pos (acceptRun valid l1) \<and> input (acceptRun valid l1) = input l1"
      by simp
    with n True show ?thesis
      using lnext_pos_le [OF n] lnext_input [OF n] by (simp del: acceptRun.simps add: acceptRun.simps [of valid l])
  next
    case False
    with n show ?thesis
      using lnext_backup [OF n] by (simp del: acceptRun.simps add: acceptRun.simps [of valid l])
  qed
qed

function noteLengthLoop :: "unicode \<Rightarrow> lexer \<Rightarrow> stateFn option \<times> lexer" where
  "noteLengthLoop U l =
     (case peek l of (c, l1) \<Rightarrow>
        if isEndOfLine c then (Some LexNextLine, l1)
        else if IsLetter U c then (Some LexHeaderString, l1\<lparr>pos := pos l1 + 1\<rparr>)
        else if IsDigit U c
        then noteLengthLoop U (emit itemNumber (acceptDecimalRun (l1\<lparr>pos := pos l1 + 1\<rparr>)))
        else if c = runeOf CHR ''/''
        then noteLengthLoop U (emit itemDivide (l1\<lparr>pos := pos l1 + 1\<rparr>))
        else (None, errorf (''unknown character: '' @ encodeRune c) (l1\<lparr>pos := pos l1 + 1\<rparr>)))"
  by pat_completeness auto
termination
proof (relation "measure (\<lambda>(U, l). length (input l) - pos l)", goal_cases)
  case 1
  show ?case by simp
next
  case (2 U l c l1)
  then have "peek l = (c, l1)" "c \<noteq> eof"
    by (auto simp: IsDigit_def eof_def)
  then show ?case
    using peek_pos [of l c l1] acceptRun_pos [of "l1\<lparr>pos := pos l1 + 1\<rparr>" "''0123456789''"]
    by (auto simp: emit_def acceptDecimalRun_def)
next
  case (3 U l c l1)
  then have "peek l = (c, l1)" "c \<noteq> eof"
    by (auto simp: eof_def runeOf_def)
  then show ?case
    using peek_pos [of l c l1] by (auto simp: emit_def)
qed

definition lexHeaderNoteLength :: "unicode \<Rightarrow> lexer \<Rightarrow> stateFn option \<times> lexer" where
  "lexHeaderNoteLength U l = noteLengthLoop U (ignoreWhitespace l)"

text \<open>One call \<open>state(l)\<close> of the loop of \<open>run\<close>.\<close>

definition step :: "unicode \<Rightarrow> stateFn \<Rightarrow> lexer \<Rightarrow> (stateFn option \<times> lexer) option" where
  "step U f l =
     (case f of
        LexLine \<Rightarrow> Some (lexLine l)
      | LexBodyLine \<Rightarrow> Some (lexBodyLine U l)
      | LexVariant \<Rightarrow> Some (lexVariant l)
      | LexChord \<Rightarrow> lexChord l
      | LexAnnotation \<Rightarrow> lexAnnotation l
      | LexComment \<Rightarrow> Some (lexComment l)
      | LexHeaderLine \<Rightarrow> Some (lexHeaderLine l)
      | LexNextLine \<Rightarrow> Some (lexNextLine l)
      | LexHeaderInt \<Rightarrow> Some (lexHeaderInt l)
      | LexHeaderString \<Rightarrow> Some (lexHeaderString l)
      | LexHeaderMeter \<Rightarrow> lexHeaderMeter U l
      | LexHeaderNoteLength \<Rightarrow> Some (lexHeaderNoteLength U l))"

text \<open>
  \<open>run\<close>: \<^verbatim>\<open>for state := lexLine; state != nil; { state = state(l) }\<close>, then the
  channel is closed. The result is the scanner when the loop ends, \<open>None\<close> when it does
  not.
\<close>

partial_function (option) run :: "unicode \<Rightarrow> stateFn option \<Rightarrow> lexer \<Rightarrow> lexer option" where
  "run U state l =
     (case state of
        None \<Rightarrow> Some l
      | Some f \<Rightarrow>
          (case step U f l of
             None \<Rightarrow> None
           | Some (state', l') \<Rightarrow> run U state' l'))"

declare run.simps [code]

text \<open>
  \<open>lex\<close> starts the scanner on the input. Its value here is the sequence of all the items
  the scanner sends before it closes the channel, \<open>None\<close> when it never closes it.
\<close>

definition lex :: "unicode \<Rightarrow> string \<Rightarrow> item list option" where
  "lex U s =
     map_option items
       (run U (Some LexLine) \<lparr>input = s, pos = 0, start = 0, width = 0, items = [], line = 1\<rparr>)"


section \<open>Tunes\<close>

text \<open>
  The structs of package \<open>abc\<close>. \<open>Notation\<close> is an interface with the one method
  \<open>Length()\<close>; no type of the repository implements it and the parser never builds
  one, so a notation is modelled by the length it reports.
\<close>

datatype Notation = Notation (Length: int)

record BarLine =
  Repeat :: int

record Bar =
  Left :: BarLine
  Notation :: "Notation list"
  Right :: BarLine

record NoteLength =
  Numerator :: int
  Denominator :: int

record Meter =
  Numerator :: "int list"
  Denominator :: int

record Tune =
  Area :: string
  Book :: string
  Composer :: string
  Discography :: string
  FileURL :: string
  History :: "string list"
  Group :: string
  Sequence :: int
  Title :: string
  Comments :: "string list"
  Rhythm :: string
  Origin :: string
  Meter :: Meter
  NoteLength :: NoteLength
  Key :: string
  Source :: string
  Transcription :: string
  WordsAfterTune :: "string list"
  Bars :: "Bar list"

text \<open>The zero value of \<open>abc.Tune\<close>.\<close>

definition zeroTune :: Tune where
  "zeroTune =
     \<lparr>Area = [], Book = [], Composer = [], Discography = [], FileURL = [], History = [],
      Group = [], Sequence = 0, Title = [], Comments = [], Rhythm = [], Origin = [],
      Meter = \<lparr>Meter.Numerator = [], Meter.Denominator = 0\<rparr>,
      NoteLength = \<lparr>NoteLength.Numerator = 0, NoteLength.Denominator = 0\<rparr>,
      Key = [], Source = [], Transcription = [], WordsAfterTune = [], Bars = []\<rparr>"

section \<open>Number conversion\<close>

text \<open>
  \<open>strconv.Atoi\<close> on a platform whose \<open>int\<close> has 64 bits. The parser drops the error it
  returns and keeps the value: 0 after a syntax error, the nearest bound after a range
  error.
\<close>

datatype numError = ErrSyntax | ErrRange

definition maxUint64 :: nat where
  "maxUint64 = 18446744073709551615"

fun parseUintLoop :: "string \<Rightarrow> nat \<Rightarrow> nat \<times> numError option" where
  "parseUintLoop [] n = (n, None)"
| "parseUintLoop (c # cs) n =
     (let b = (of_char c :: nat) in
      if b < 48 \<or> 57 < b then (0, Some ErrSyntax)
      else if maxUint64 div 10 + 1 \<le> n then (maxUint64, Some ErrRange)
      else if maxUint64 < n * 10 + (b - 48) then (maxUint64, Some ErrRange)
      else parseUintLoop cs (n * 10 + (b - 48)))"

definition ParseUint :: "string \<Rightarrow> nat \<times> numError option" where
  "ParseUint s = (if s = [] then (0, Some ErrSyntax) else parseUintLoop s 0)"

definition Atoi :: "string \<Rightarrow> int" where
  "Atoi s =
     (let neg = (s \<noteq> [] \<and> hd s = CHR ''-'');
          ds = (if s \<noteq> [] \<and> (hd s = CHR ''+'' \<or> hd s = CHR ''-'') then tl s else s)
      in case ParseUint ds of
           (un, Some ErrSyntax) \<Rightarrow> 0
         | (un, _) \<Rightarrow>
             if \<not> neg \<and> 9223372036854775808 \<le> un then 9223372036854775807
             else if neg \<and> 9223372036854775808 < un then - 9223372036854775808
             else if neg then - int un else int un)"


section \<open>The parser\<close>

text \<open>
  What a call of the parser can end in besides success: one of its three error values,
  or the run-time panic of a write through the \<open>nil\<close> pointer \<open>currentTune\<close>, which is
  no error value (the program stops).
\<close>

datatype failure =
    ExpectedOneOf "itemType list"
  | ExpectedNumberOrPlus item
  | Unhandled
  | NilDereference

text \<open>
  The struct \<open>parser\<close>. Its \<open>lexer\<close> is the interface \<open>lexingResult\<close>, of which the
  parser calls \<open>nextItem\<close> only: it is modelled by the items not yet delivered, and
  \<open>nextItem\<close> returns \<open>nil\<close> once they are used up (the closed channel of the scanner,
  the exhausted \<open>itemSource\<close> of the tests). \<open>currentTune\<close> is a pointer to a tune that
  nothing else refers to; \<open>nil\<close> is \<open>None\<close>.
\<close>

record parser =
  lexer :: "item list"
  tunes :: "Tune list"
  currentTune :: "Tune option"

definition nextItem :: "parser \<Rightarrow> item option \<times> parser" where
  "nextItem p =
     (case lexer p of
        [] \<Rightarrow> (None, p)
      | it # rest \<Rightarrow> (Some it, p\<lparr>lexer := rest\<rparr>))"

definition expect :: "itemType list \<Rightarrow> parser \<Rightarrow> (failure + item) \<times> parser" where
  "expect types p =
     (case nextItem p of
        (None, p1) \<Rightarrow> (Inl (ExpectedOneOf types), p1)
      | (Some it, p1) \<Rightarrow>
          if itemTyp it \<in> set types then (Inr it, p1) else (Inl (ExpectedOneOf types), p1))"

definition expectNewline :: "parser \<Rightarrow> failure option \<times> parser" where
  "expectNewline p =
     (case expect [itemNewline] p of
        (Inl e, p1) \<Rightarrow> (Some e, p1)
      | (Inr it, p1) \<Rightarrow> (None, p1))"

text \<open>The loop of \<open>consumeToNewline\<close>, on the items not yet delivered.\<close>

fun dropToNewline :: "item list \<Rightarrow> item list" where
  "dropToNewline [] = []"
| "dropToNewline (it # rest) = (if itemTyp it = itemNewline then rest else dropToNewline rest)"

definition consumeToNewline :: "parser \<Rightarrow> failure option \<times> parser" where
  "consumeToNewline p = (None, p\<lparr>lexer := dropToNewline (lexer p)\<rparr>)"

definition expectString :: "parser \<Rightarrow> (string \<times> failure option) \<times> parser" where
  "expectString p =
     (case expect [itemString] p of
        (Inl e, p1) \<Rightarrow> (([], Some e), p1)
      | (Inr it, p1) \<Rightarrow> (case expectNewline p1 of (err, p2) \<Rightarrow> ((itemVal it, err), p2)))"

text \<open>
  The two statements \<^verbatim>\<open>p.currentTune.F, err = p.expectString(); return err\<close> of the
  simple string fields, for the field \<open>F\<close> that \<open>upd\<close> writes. Go calls \<open>expectString\<close>
  and then assigns through the pointer, so with no current tune the call ends in the
  panic whatever the items are.
\<close>

definition setStringField :: "(string \<Rightarrow> Tune \<Rightarrow> Tune) \<Rightarrow> parser \<Rightarrow> failure option \<times> parser" where
  "setStringField upd p =
     (case expectString p of
        ((s, err), p1) \<Rightarrow>
          (case currentTune p1 of
             None \<Rightarrow> (Some NilDereference, p1)
           | Some t \<Rightarrow> (err, p1\<lparr>currentTune := Some (upd s t)\<rparr>)))"

text \<open>
  The loop of \<open>setMeter\<close> that collects the numerator: it ends at a divide item or when
  no item is left, and fails at an item that is neither a number nor a plus.
\<close>

fun meterNumerator :: "item list \<Rightarrow> int list \<Rightarrow> (failure + int list) \<times> item list" where
  "meterNumerator [] acc = (Inr acc, [])"
| "meterNumerator (it # rest) acc =
     (if itemTyp it = itemDivide then (Inr acc, rest)
      else if itemTyp it = itemNumber then meterNumerator rest (acc @ [Atoi (itemVal it)])
      else if itemTyp it = itemPlus then meterNumerator rest acc
      else (Inl (ExpectedNumberOrPlus it), rest))"

definition setMeter :: "parser \<Rightarrow> failure option \<times> parser" where
  "setMeter p =
     (case meterNumerator (lexer p) [] of
        (Inl e, rest) \<Rightarrow> (Some e, p\<lparr>lexer := rest\<rparr>)
      | (Inr num, rest) \<Rightarrow>
          (case expect [itemNumber] (p\<lparr>lexer := rest\<rparr>) of
             (Inl e, p1) \<Rightarrow> (Some e, p1)
           | (Inr it, p1) \<Rightarrow>
               (case currentTune p1 of
                  None \<Rightarrow> (Some NilDereference, p1)
                | Some t \<Rightarrow>
                    consumeToNewline
                      (p1\<lparr>currentTune :=
                            Some (t\<lparr>Meter := \<lparr>Meter.Numerator = num,
                                                Meter.Denominator = Atoi (itemVal it)\<rparr>\<rparr>)\<rparr>))))"

definition setNoteLength :: "parser \<Rightarrow> failure option \<times> parser" where
  "setNoteLength p =
     (case expect [itemNumber] p of
        (Inl e, p1) \<Rightarrow> (Some e, p1)
      | (Inr n, p1) \<Rightarrow>
          (case expect [itemDivide] p1 of
             (Inl e, p2) \<Rightarrow> (Some e, p2)
           | (Inr sep, p2) \<Rightarrow>
               (case expect [itemNumber] p2 of
                  (Inl e, p3) \<Rightarrow> (Some e, p3)
                | (Inr d, p3) \<Rightarrow>
                    (case currentTune p3 of
                       None \<Rightarrow> (Some NilDereference, p3)
                     | Some t \<Rightarrow>
                         consumeToNewline
                           (p3\<lparr>currentTune :=
                                 Some (t\<lparr>NoteLength :=
                                          \<lparr>NoteLength.Numerator = Atoi (itemVal n),
                                           NoteLength.Denominator = Atoi (itemVal d)\<rparr>\<rparr>)\<rparr>)))))"

text \<open>
  \<open>addNotes\<close>, \<open>addWordsAfterTune\<close> and \<open>addHistory\<close>: expect a string, append it to
  the list of the current tune, expect the newline. \<open>upd\<close> is the append to the list.
\<close>

definition addToList :: "(string \<Rightarrow> Tune \<Rightarrow> Tune) \<Rightarrow> parser \<Rightarrow> failure option \<times> parser" where
  "addToList upd p =
     (case expect [itemString] p of
        (Inl e, p1) \<Rightarrow> (Some e, p1)
      | (Inr it, p1) \<Rightarrow>
          (case currentTune p1 of
             None \<Rightarrow> (Some NilDereference, p1)
           | Some t \<Rightarrow> expectNewline (p1\<lparr>currentTune := Some (upd (itemVal it) t)\<rparr>)))"

definition addNotes :: "parser \<Rightarrow> failure option \<times> parser" where
  "addNotes p = addToList (\<lambda>s t. t\<lparr>Comments := Comments t @ [s]\<rparr>) p"

definition addWordsAfterTune :: "parser \<Rightarrow> failure option \<times> parser" where
  "addWordsAfterTune p = addToList (\<lambda>s t. t\<lparr>WordsAfterTune := WordsAfterTune t @ [s]\<rparr>) p"

definition addHistory :: "parser \<Rightarrow> failure option \<times> parser" where
  "addHistory p = addToList (\<lambda>s t. t\<lparr>History := History t @ [s]\<rparr>) p"

text \<open>
  \<open>setSequence\<close>: the append \<^verbatim>\<open>p.tunes = append(p.tunes, *p.currentTune)\<close> copies the
  tune the pointer refers to; then the pointer is set to a new tune.
\<close>

definition setSequence :: "parser \<Rightarrow> failure option \<times> parser" where
  "setSequence p =
     (case expect [itemNumber] p of
        (Inl e, p1) \<Rightarrow> (Some e, p1)
      | (Inr it, p1) \<Rightarrow>
          (let p2 = (case currentTune p1 of
                       None \<Rightarrow> p1
                     | Some t \<Rightarrow> p1\<lparr>tunes := tunes p1 @ [t]\<rparr>)
           in expectNewline (p2\<lparr>currentTune := Some (zeroTune\<lparr>Sequence := Atoi (itemVal it)\<rparr>)\<rparr>)))"

text \<open>
  Modelled from the spec: the header constants that \<open>handleFieldName\<close> names and the
  source files do not declare (\<open>headerA\<close>, \<open>headerB\<close>, \<open>headerD\<close>, \<open>headerF\<close>,
  \<open>headerG\<close>, \<open>headerH\<close>, \<open>headerI\<close>, \<open>headerm\<close>, \<open>headerP\<close>, \<open>headerQ\<close>,
  \<open>headerr\<close>, \<open>headerS\<close>, \<open>headers\<close>, \<open>headerU\<close>, \<open>headerV\<close>, \<open>headerW\<close>,
  \<open>headerw\<close>, \<open>headerZ\<close>). The specification lists the header letters A, B, D, F, G, H,
  S, W, Z and the lowercase r with the fields of the tune they set; each constant is the
  letter its name ends in, as the declared ones are.
\<close>

definition headerA :: char where "headerA = CHR ''A''"
definition headerB :: char where "headerB = CHR ''B''"
definition headerD :: char where "headerD = CHR ''D''"
definition headerF :: char where "headerF = CHR ''F''"
definition headerG :: char where "headerG = CHR ''G''"
definition headerH :: char where "headerH = CHR ''H''"
definition headerI :: char where "headerI = CHR ''I''"
definition headerm :: char where "headerm = CHR ''m''"
definition headerP :: char where "headerP = CHR ''P''"
definition headerQ :: char where "headerQ = CHR ''Q''"
definition headerr :: char where "headerr = CHR ''r''"
definition headerS :: char where "headerS = CHR ''S''"
definition headers :: char where "headers = CHR ''s''"
definition headerU :: char where "headerU = CHR ''U''"
definition headerV :: char where "headerV = CHR ''V''"
definition headerW :: char where "headerW = CHR ''W''"
definition headerw :: char where "headerw = CHR ''w''"
definition headerZ :: char where "headerZ = CHR ''Z''"

definition handleFieldName :: "item \<Rightarrow> parser \<Rightarrow> failure option \<times> parser" where
  "handleFieldName it p =
     (let v = itemVal it in
      if v = [headerA] then setStringField (\<lambda>s t. t\<lparr>Area := s\<rparr>) p
      else if v = [headerB] then setStringField (\<lambda>s t. t\<lparr>Book := s\<rparr>) p
      else if v = [headerC] then setStringField (\<lambda>s t. t\<lparr>Composer := s\<rparr>) p
      else if v = [headerD] then setStringField (\<lambda>s t. t\<lparr>Discography := s\<rparr>) p
      else if v = [headerF] then setStringField (\<lambda>s t. t\<lparr>FileURL := s\<rparr>) p
      else if v = [headerG] then setStringField (\<lambda>s t. t\<lparr>Group := s\<rparr>) p
      else if v = [headerH] then addHistory p
      else if v = [headerI] then consumeToNewline p
      else if v = [headerK] then consumeToNewline p
      else if v = [headerL] then setNoteLength p
      else if v = [headerM] then setMeter p
      else if v = [headerm] then consumeToNewline p
      else if v = [headerN] then addNotes p
      else if v = [headerO] then setStringField (\<lambda>s t. t\<lparr>Origin := s\<rparr>) p
      else if v = [headerP] then consumeToNewline p
      else if v = [headerQ] then consumeToNewline p
      else if v = [headerR] then setStringField (\<lambda>s t. t\<lparr>Rhythm := s\<rparr>) p
      else if v = [headerr] then consumeToNewline p
      else if v = [headerS] then setStringField (\<lambda>s t. t\<lparr>Source := s\<rparr>) p
      else if v = [headers] then consumeToNewline p
      else if v = [headerT] then setStringField (\<lambda>s t. t\<lparr>Title := s\<rparr>) p
      else if v = [headerU] then consumeToNewline p
      else if v = [headerV] then consumeToNewline p
      else if v = [headerW] then addWordsAfterTune p
      else if v = [headerw] then consumeToNewline p
      else if v = [headerX] then setSequence p
      else if v = [headerZ] then setStringField (\<lambda>s t. t\<lparr>Transcription := s\<rparr>) p
      else (Some Unhandled, p))"

definition handleItem :: "item \<Rightarrow> parser \<Rightarrow> failure option \<times> parser" where
  "handleItem it p = (if itemTyp it = itemFieldName then handleFieldName it p else (None, p))"


text \<open>No call of the parser puts an item back: the items left never become more.\<close>

lemma expect_length: "length (lexer (snd (expect types p))) \<le> length (lexer p)"
  by (simp add: expect_def nextItem_def split: list.splits)

lemma expectNewline_length: "length (lexer (snd (expectNewline p))) \<le> length (lexer p)"
proof -
  obtain r p1 where e: "expect [itemNewline] p = (r, p1)"
    by (cases "expect [itemNewline] p")
  then show ?thesis
    using expect_length [of "[itemNewline]" p]
    by (cases r) (simp_all add: expectNewline_def)
qed

lemma dropToNewline_length: "length (dropToNewline xs) \<le> length xs"
  by (induction xs) auto

lemma consumeToNewline_length: "length (lexer (snd (consumeToNewline p))) \<le> length (lexer p)"
  by (simp add: consumeToNewline_def dropToNewline_length)

lemma expectString_length: "length (lexer (snd (expectString p))) \<le> length (lexer p)"
proof -
  obtain r p1 where e: "expect [itemString] p = (r, p1)"
    by (cases "expect [itemString] p")
  obtain err p2 where n: "expectNewline p1 = (err, p2)"
    by (cases "expectNewline p1")
  have a: "length (lexer p1) \<le> length (lexer p)"
    using expect_length [of "[itemString]" p] e by simp
  have b: "length (lexer p2) \<le> length (lexer p1)"
    using expectNewline_length [of p1] n by simp
  show ?thesis
    using e n a b by (cases r) (simp_all add: expectString_def)
qed

lemma setStringField_length:
  "length (lexer (snd (setStringField upd p))) \<le> length (lexer p)"
  using expectString_length [of p]
  by (auto simp: setStringField_def split: prod.splits option.splits)

lemma meterNumerator_length: "length (snd (meterNumerator xs acc)) \<le> length xs"
  by (induction xs arbitrary: acc) (auto simp: le_SucI)

lemma setMeter_length: "length (lexer (snd (setMeter p))) \<le> length (lexer p)"
proof (cases "meterNumerator (lexer p) []")
  case (Pair r rest)
  have a: "length rest \<le> length (lexer p)"
    using meterNumerator_length [of "lexer p" "[]"] Pair by simp
  show ?thesis
  proof (cases r)
    case (Inl e)
    with Pair a show ?thesis by (simp add: setMeter_def)
  next
    case (Inr num)
    obtain r1 p1 where e: "expect [itemNumber] (p\<lparr>lexer := rest\<rparr>) = (r1, p1)"
      by (cases "expect [itemNumber] (p\<lparr>lexer := rest\<rparr>)")
    have b: "length (lexer p1) \<le> length rest"
      using expect_length [of "[itemNumber]" "p\<lparr>lexer := rest\<rparr>"] e by simp
    show ?thesis
      using Pair Inr e a b
      by (cases r1)
         (auto simp: setMeter_def consumeToNewline_def split: option.splits
               intro: order_trans [OF dropToNewline_length])
  qed
qed

lemma setNoteLength_length: "length (lexer (snd (setNoteLength p))) \<le> length (lexer p)"
proof -
  obtain r1 p1 where e1: "expect [itemNumber] p = (r1, p1)"
    by (cases "expect [itemNumber] p")
  obtain r2 p2 where e2: "expect [itemDivide] p1 = (r2, p2)"
    by (cases "expect [itemDivide] p1")
  obtain r3 p3 where e3: "expect [itemNumber] p2 = (r3, p3)"
    by (cases "expect [itemNumber] p2")
  have a: "length (lexer p1) \<le> length (lexer p)"
    using expect_length [of "[itemNumber]" p] e1 by simp
  have b: "length (lexer p2) \<le> length (lexer p1)"
    using expect_length [of "[itemDivide]" p1] e2 by simp
  have c: "length (lexer p3) \<le> length (lexer p2)"
    using expect_length [of "[itemNumber]" p2] e3 by simp
  have d: "length (dropToNewline (lexer p3)) \<le> length (lexer p3)"
    by (rule dropToNewline_length)
  show ?thesis
    using e1 e2 e3 a b c d
    by (cases r1; cases r2; cases r3)
       (auto simp: setNoteLength_def consumeToNewline_def split: option.splits)
qed

lemma addToList_length: "length (lexer (snd (addToList upd p))) \<le> length (lexer p)"
proof -
  obtain r1 p1 where e1: "expect [itemString] p = (r1, p1)"
    by (cases "expect [itemString] p")
  have a: "length (lexer p1) \<le> length (lexer p)"
    using expect_length [of "[itemString]" p] e1 by simp
  show ?thesis
  proof (cases r1)
    case (Inl e)
    with e1 a show ?thesis by (simp add: addToList_def)
  next
    case (Inr it)
    show ?thesis
    proof (cases "currentTune p1")
      case None
      with Inr e1 a show ?thesis by (simp add: addToList_def)
    next
      case (Some t)
      with Inr e1 a
        expectNewline_length [of "p1\<lparr>currentTune := Some (upd (itemVal it) t)\<rparr>"]
      show ?thesis by (simp add: addToList_def)
    qed
  qed
qed

lemma setSequence_length: "length (lexer (snd (setSequence p))) \<le> length (lexer p)"
proof -
  obtain r1 p1 where e1: "expect [itemNumber] p = (r1, p1)"
    by (cases "expect [itemNumber] p")
  have a: "length (lexer p1) \<le> length (lexer p)"
    using expect_length [of "[itemNumber]" p] e1 by simp
  show ?thesis
  proof (cases r1)
    case (Inl e)
    with e1 a show ?thesis by (simp add: setSequence_def)
  next
    case (Inr it)
    define p2 where "p2 = (case currentTune p1 of None \<Rightarrow> p1 | Some t \<Rightarrow> p1\<lparr>tunes := tunes p1 @ [t]\<rparr>)"
    have b: "lexer p2 = lexer p1"
      by (simp add: p2_def split: option.splits)
    show ?thesis
      using Inr e1 a b
        expectNewline_length [of "p2\<lparr>currentTune := Some (zeroTune\<lparr>Sequence := Atoi (itemVal it)\<rparr>)\<rparr>"]
      by (simp add: setSequence_def p2_def [symmetric] Let_def)
  qed
qed

lemma handleFieldName_length:
  "length (lexer (snd (handleFieldName it p))) \<le> length (lexer p)"
  by (simp add: handleFieldName_def Let_def setStringField_length setMeter_length
        setNoteLength_length addToList_length setSequence_length consumeToNewline_length
        addNotes_def addHistory_def addWordsAfterTune_def)

lemma handleItem_length: "length (lexer (snd (handleItem it p))) \<le> length (lexer p)"
  by (simp add: handleItem_def handleFieldName_length)

text \<open>
  The loop of \<open>parse\<close>: it ends when no item is left, with the parser it has reached,
  or at the first failure.
\<close>

function parseLoop :: "parser \<Rightarrow> failure + parser" where
  "parseLoop p =
     (case nextItem p of
        (None, p1) \<Rightarrow> Inr p1
      | (Some it, p1) \<Rightarrow>
          (case handleItem it p1 of
             (Some e, p2) \<Rightarrow> Inl e
           | (None, p2) \<Rightarrow> parseLoop p2))"
  by pat_completeness auto
termination
proof (relation "measure (\<lambda>p. length (lexer p))", goal_cases)
  case 1
  show ?case by simp
next
  case (2 p x p1 it r p2)
  have "length (lexer p1) < length (lexer p)"
    using 2 by (auto simp: nextItem_def split: list.splits)
  moreover have "length (lexer p2) \<le> length (lexer p1)"
    using handleItem_length [of it p1] 2 by (metis snd_conv)
  ultimately show ?case by simp
qed

text \<open>
  \<open>parse\<close> returns the tunes with the current tune appended when there is one, or the
  failure and no tunes.
\<close>

definition parse :: "parser \<Rightarrow> failure + Tune list" where
  "parse p =
     (case parseLoop p of
        Inl e \<Rightarrow> Inl e
      | Inr p1 \<Rightarrow>
          (case currentTune p1 of
             None \<Rightarrow> Inr (tunes p1)
           | Some t \<Rightarrow> Inr (tunes p1 @ [t])))"

text \<open>
  \<open>Read\<close> on the text of the input stream (reading the stream is not modelled). The
  parser takes the items one by one from the channel while the scanner runs. The model
  lets the scanner finish first: when the scanner closes the channel, the value is what
  \<open>parse\<close> returns on the items it has sent, which is what the parser returns when it
  takes them one by one. The value \<open>None\<close> says only that the scanner never closes the
  channel: the Go parser then waits for ever for an item, unless a field handled before
  has already made it return its error. Every statement below about \<open>Read\<close> is about
  a text on which the scanner closes the channel.
\<close>

definition Read :: "unicode \<Rightarrow> string \<Rightarrow> (failure + Tune list) option" where
  "Read U s =
     (case lex U s of
        None \<Rightarrow> None
      | Some its \<Rightarrow> Some (parse \<lparr>lexer = its, tunes = [], currentTune = None\<rparr>))"


section \<open>Running the model on a concrete input\<close>

text \<open>
  The defining equations of the scanner and of the parser, for the simplifier to run
  them on a concrete input. They are used with \<open>split del: if_split\<close>, so that a
  conditional is only reduced once its condition is decided.
\<close>

named_theorems scan_eval
named_theorems parse_eval

lemmas [scan_eval] =
  lex_def step_def lexLine_def lexBodyLine_def lexBodyChar_def lexVariant_def lexChord_def
  lexAnnotation_def lexComment_def lexHeaderLine_def lexNextLine_def lexHeaderInt_def
  lexHeaderString_def lexHeaderMeter_def lexHeaderNoteLength_def meterChar_def
  compoundMarker_def HasPrefix_def peek_def lnext_def backup_def emit_def ignore_def
  errorf_def slice_def countNewlines_def acceptNewline_def ignoreNewline_def
  acceptDecimalRun_def ContainsRune_def isSpace_def isEndOfLine_def IsDigit_def IsLetter_def
  DecodeRuneInString_def byteAt_def runeOf_def eof_def RuneError_def contByte_def
  acceptLo_def acceptHi_def encodeRune_def showInt_def char_of_def
  headerX_def headerT_def headerN_def headerM_def headerL_def headerK_def headerC_def
  headerO_def headerR_def Let_def

text \<open>
  The equations of the three partial loops. \<open>scanToQuote\<close> and \<open>meterLoop\<close> are only
  unfolded on inputs on which they return.
\<close>

lemmas scan_loops = run.simps meterLoop.simps scanToQuote.simps

lemmas [parse_eval] =
  Read_def parse_def nextItem_def handleItem_def handleFieldName_def setSequence_def
  setMeter_def setNoteLength_def setStringField_def addToList_def addNotes_def
  addHistory_def addWordsAfterTune_def expect_def expectNewline_def expectString_def
  consumeToNewline_def zeroTune_def Atoi_def ParseUint_def maxUint64_def
  headerA_def headerB_def headerD_def headerF_def headerG_def headerH_def headerI_def
  headerm_def headerP_def headerQ_def headerr_def headerS_def headers_def headerU_def
  headerV_def headerW_def headerw_def headerZ_def

section \<open>Claim C1: the four header lines\<close>

text \<open>
  The input of the claim: the four header lines \<open>X:1\<close>, \<open>M:4/4\<close>, \<open>O:Irish\<close> and
  \<open>R:Reel\<close>, separated by newlines, with no newline after the last.
\<close>

definition headerLines :: string where
  "headerLines =
     ''X:1'' @ [CHR 0x0A] @ ''M:4/4'' @ [CHR 0x0A] @ ''O:Irish'' @ [CHR 0x0A] @ ''R:Reel''"

text \<open>
  The scanner sends, for this input, the items the test \<open>handles basic headers\<close> of
  the repository expects: the last two are the string \<open>Reel\<close> and the end-of-input item,
  with no newline item between them.
\<close>

lemma lex_headerLines:
  "map itemTyp (the (lex U headerLines)) =
     [itemFieldName, itemNumber, itemNewline,
      itemFieldName, itemNumber, itemDivide, itemNumber, itemNewline,
      itemFieldName, itemString, itemNewline,
      itemFieldName, itemString, itemEOF]"
  by (simp add: headerLines_def scan_eval scan_loops split del: if_split)

text \<open>
  Claim C1 says that \<open>Read\<close> returns, for this input, one tune with sequence number 1,
  meter 4/4, origin \<open>Irish\<close> and rhythm \<open>Reel\<close>, and no error. The code returns an error
  and no tune: after the string of the last field (\<open>R:Reel\<close>) \<open>expectString\<close> calls
  \<open>expectNewline\<close>, the next item is the end-of-input item of the scanner, and
  \<open>expect\<close> fails on it.
\<close>

theorem C1_Read_headerLines_fails:
  "Read U headerLines = Some (Inl (ExpectedOneOf [itemNewline]))"
  by (simp add: headerLines_def scan_eval scan_loops parse_eval split del: if_split)

text \<open>
  With a newline after the last line the same input gives the tune of the claim.
\<close>

lemma Read_headerLines_newline:
  "Read U (headerLines @ [CHR 0x0A]) =
     Some (Inr [zeroTune\<lparr>Sequence := 1, Rhythm := ''Reel'', Origin := ''Irish'',
                           Meter := \<lparr>Meter.Numerator = [4], Meter.Denominator = 4\<rparr>\<rparr>])"
  by (simp add: headerLines_def scan_eval scan_loops parse_eval split del: if_split)


section \<open>Claims C2 and C9: how tunes enter the output\<close>

text \<open>
  The tunes the parser holds: those appended to the output so far, followed by the
  current tune when there is one. This is what \<open>parse\<close> returns when the loop ends.
\<close>

definition allTunes :: "parser \<Rightarrow> Tune list" where
  "allTunes p = (case currentTune p of None \<Rightarrow> tunes p | Some t \<Rightarrow> tunes p @ [t])"

text \<open>\<open>expect\<close> and \<open>expectNewline\<close> by the items left.\<close>

lemma expect_cases:
  "expect types p =
     (case lexer p of
        [] \<Rightarrow> (Inl (ExpectedOneOf types), p)
      | it # rest \<Rightarrow>
          if itemTyp it \<in> set types then (Inr it, p\<lparr>lexer := rest\<rparr>)
          else (Inl (ExpectedOneOf types), p\<lparr>lexer := rest\<rparr>))"
  by (simp add: expect_def nextItem_def split: list.splits)

lemma expectNewline_cases:
  "expectNewline p =
     (case lexer p of
        [] \<Rightarrow> (Some (ExpectedOneOf [itemNewline]), p)
      | it # rest \<Rightarrow>
          if itemTyp it = itemNewline then (None, p\<lparr>lexer := rest\<rparr>)
          else (Some (ExpectedOneOf [itemNewline]), p\<lparr>lexer := rest\<rparr>))"
  by (simp add: expectNewline_def expect_cases split: list.splits)

lemma setSequence_success:
  "setSequence p = (None, p') \<longleftrightarrow>
     (\<exists>n nl rest. lexer p = n # nl # rest \<and> itemTyp n = itemNumber \<and> itemTyp nl = itemNewline
        \<and> p' = p\<lparr>lexer := rest, tunes := allTunes p,
                  currentTune := Some (zeroTune\<lparr>Sequence := Atoi (itemVal n)\<rparr>)\<rparr>)"
  by (auto simp: setSequence_def expect_cases expectNewline_cases allTunes_def Let_def
           split: list.splits option.splits if_splits)


text \<open>What the field handlers other than \<open>setSequence\<close> leave unchanged.\<close>

definition keepsTunes :: "(parser \<Rightarrow> failure option \<times> parser) \<Rightarrow> bool" where
  "keepsTunes h =
     (\<forall>p. tunes (snd (h p)) = tunes p \<and>
          map_option Sequence (currentTune (snd (h p))) = map_option Sequence (currentTune p))"

lemma expect_keeps:
  "tunes (snd (expect types p)) = tunes p \<and> currentTune (snd (expect types p)) = currentTune p"
  by (simp add: expect_cases split: list.splits)

lemma expectNewline_keeps:
  "tunes (snd (expectNewline p)) = tunes p \<and> currentTune (snd (expectNewline p)) = currentTune p"
  by (simp add: expectNewline_cases split: list.splits)

lemma expectString_keeps:
  "tunes (snd (expectString p)) = tunes p \<and> currentTune (snd (expectString p)) = currentTune p"
  by (simp add: expectString_def expect_cases expectNewline_cases split: list.splits)

lemma consumeToNewline_keeps: "keepsTunes consumeToNewline"
  by (simp add: keepsTunes_def consumeToNewline_def)

lemma setStringField_keeps:
  assumes "\<And>s t. Sequence (upd s t) = Sequence t"
  shows "keepsTunes (setStringField upd)"
  unfolding keepsTunes_def
proof (intro allI)
  fix p
  obtain s err p1 where e: "expectString p = ((s, err), p1)"
    by (cases "expectString p") auto
  then have k: "tunes p1 = tunes p" "currentTune p1 = currentTune p"
    using expectString_keeps [of p] by simp_all
  show "tunes (snd (setStringField upd p)) = tunes p \<and>
        map_option Sequence (currentTune (snd (setStringField upd p))) =
        map_option Sequence (currentTune p)"
    using e k assms by (simp add: setStringField_def split: option.splits)
qed

lemma addToList_keeps:
  assumes "\<And>s t. Sequence (upd s t) = Sequence t"
  shows "keepsTunes (addToList upd)"
  unfolding keepsTunes_def
  using assms
  by (auto simp: addToList_def expect_cases expectNewline_cases split: list.splits option.splits)

lemma setMeter_keeps: "keepsTunes setMeter"
  unfolding keepsTunes_def
  by (auto simp: setMeter_def expect_cases consumeToNewline_def
           split: prod.splits sum.splits list.splits option.splits)

lemma setNoteLength_keeps: "keepsTunes setNoteLength"
  unfolding keepsTunes_def
  by (auto simp: setNoteLength_def expect_cases consumeToNewline_def
           split: prod.splits sum.splits list.splits option.splits)

lemma handleFieldName_keeps:
  assumes "itemVal it \<noteq> [headerX]"
  shows "tunes (snd (handleFieldName it p)) = tunes p \<and>
         map_option Sequence (currentTune (snd (handleFieldName it p))) =
         map_option Sequence (currentTune p)"
proof -
  have a: "\<And>h. keepsTunes h \<Longrightarrow> tunes (snd (h p)) = tunes p \<and>
         map_option Sequence (currentTune (snd (h p))) = map_option Sequence (currentTune p)"
    by (simp add: keepsTunes_def)
  show ?thesis
    using assms
    by (simp add: handleFieldName_def Let_def a consumeToNewline_keeps setStringField_keeps
          addToList_keeps setMeter_keeps setNoteLength_keeps addNotes_def addHistory_def
          addWordsAfterTune_def)
qed

lemma setSequence_tunes:
  "tunes (snd (setSequence p)) = tunes p \<or> tunes (snd (setSequence p)) = allTunes p"
  by (auto simp: setSequence_def expect_cases expectNewline_cases allTunes_def Let_def
           split: list.splits option.splits)

lemma handleItem_prefix: "prefix (tunes p) (tunes (snd (handleItem it p)))"
proof (cases "itemTyp it = itemFieldName \<and> itemVal it = [headerX]")
  case True
  then show ?thesis
    using setSequence_tunes [of p]
    by (auto simp: handleItem_def handleFieldName_def Let_def allTunes_def headerX_def
          headerA_def headerB_def headerC_def headerD_def headerF_def headerG_def headerH_def
          headerI_def headerK_def headerL_def headerM_def headerm_def headerN_def headerO_def
          headerP_def headerQ_def headerR_def headerr_def headerS_def headers_def headerT_def
          headerU_def headerV_def headerW_def headerw_def
          split: option.splits)
next
  case False
  then show ?thesis
    using handleFieldName_keeps [of it p] by (auto simp: handleItem_def)
qed


text \<open>
  The sequence numbers of the X fields that the loop of \<open>parse\<close> handles with success,
  in the order of the items: the loop again, recording at each X field the value of the
  number item that follows the field name.
\<close>

function sequenceFields :: "parser \<Rightarrow> int list" where
  "sequenceFields p =
     (case nextItem p of
        (None, p1) \<Rightarrow> []
      | (Some it, p1) \<Rightarrow>
          (case handleItem it p1 of
             (Some e, p2) \<Rightarrow> []
           | (None, p2) \<Rightarrow>
               if itemTyp it = itemFieldName \<and> itemVal it = [headerX]
               then Atoi (itemVal (hd (lexer p1))) # sequenceFields p2
               else sequenceFields p2))"
  by pat_completeness auto
termination
proof (relation "measure (\<lambda>p. length (lexer p))", goal_cases)
  case 1
  show ?case by simp
next
  case (2 p x p1 it r p2)
  have "length (lexer p1) < length (lexer p)"
    using 2 by (auto simp: nextItem_def split: list.splits)
  moreover have "length (lexer p2) \<le> length (lexer p1)"
    using handleItem_length [of it p1] 2 by (metis snd_conv)
  ultimately show ?case by simp
next
  case (3 p x p1 it r p2)
  have "length (lexer p1) < length (lexer p)"
    using 3 by (auto simp: nextItem_def split: list.splits)
  moreover have "length (lexer p2) \<le> length (lexer p1)"
    using handleItem_length [of it p1] 3 by (metis snd_conv)
  ultimately show ?case by simp
qed

declare parseLoop.simps [simp del] sequenceFields.simps [simp del]

lemma handleItem_X_success:
  assumes "itemTyp it = itemFieldName" "itemVal it = [headerX]" "handleItem it p = (None, p')"
  shows "tunes p' = allTunes p \<and>
         currentTune p' = Some (zeroTune\<lparr>Sequence := Atoi (itemVal (hd (lexer p)))\<rparr>)"
proof -
  have "handleFieldName it p = setSequence p"
    using assms(2)
    by (simp add: handleFieldName_def Let_def headerX_def
          headerA_def headerB_def headerC_def headerD_def headerF_def headerG_def headerH_def
          headerI_def headerK_def headerL_def headerM_def headerm_def headerN_def headerO_def
          headerP_def headerQ_def headerR_def headerr_def headerS_def headers_def headerT_def
          headerU_def headerV_def headerW_def headerw_def)
  then have "setSequence p = (None, p')"
    using assms by (simp add: handleItem_def)
  then show ?thesis
    by (auto simp: setSequence_success)
qed

lemma handleItem_other:
  assumes "\<not> (itemTyp it = itemFieldName \<and> itemVal it = [headerX])"
  shows "tunes (snd (handleItem it p)) = tunes p \<and>
         map_option Sequence (currentTune (snd (handleItem it p))) =
         map_option Sequence (currentTune p)"
  using assms handleFieldName_keeps [of it p] by (auto simp: handleItem_def)

lemma allTunes_Sequence:
  "tunes p' = tunes p \<Longrightarrow>
   map_option Sequence (currentTune p') = map_option Sequence (currentTune p) \<Longrightarrow>
   map Sequence (allTunes p') = map Sequence (allTunes p)"
  by (cases "currentTune p"; cases "currentTune p'"; simp add: allTunes_def)

lemma parseLoop_sequenceFields:
  "parseLoop p = Inr p' \<Longrightarrow>
     map Sequence (allTunes p') = map Sequence (allTunes p) @ sequenceFields p"
proof (induction p rule: parseLoop.induct)
  case (1 p)
  show ?case
  proof (cases "lexer p")
    case Nil
    then have "sequenceFields p = []"
      by (simp add: sequenceFields.simps [of p] nextItem_def)
    with Nil "1.prems" show ?thesis
      by (simp add: parseLoop.simps [of p] nextItem_def)
  next
    case (Cons it rest)
    define p1 where "p1 = p\<lparr>lexer := rest\<rparr>"
    have n: "nextItem p = (Some it, p1)"
      by (simp add: nextItem_def Cons p1_def)
    obtain r p2 where h: "handleItem it p1 = (r, p2)"
      by (cases "handleItem it p1")
    from "1.prems" n h have r: "r = None" and loop: "parseLoop p2 = Inr p'"
      by (auto simp: parseLoop.simps [of p] split: option.splits)
    have ih: "map Sequence (allTunes p') = map Sequence (allTunes p2) @ sequenceFields p2"
      using "1.IH" [OF n [symmetric] refl h [symmetric] _ loop] r by simp
    have a1: "allTunes p1 = allTunes p"
      by (simp add: allTunes_def p1_def split: option.splits)
    show ?thesis
    proof (cases "itemTyp it = itemFieldName \<and> itemVal it = [headerX]")
      case True
      then have "tunes p2 = allTunes p1 \<and>
          currentTune p2 = Some (zeroTune\<lparr>Sequence := Atoi (itemVal (hd (lexer p1)))\<rparr>)"
        using handleItem_X_success [of it p1 p2] h r by simp
      then have "map Sequence (allTunes p2) =
          map Sequence (allTunes p) @ [Atoi (itemVal (hd (lexer p1)))]"
        by (simp add: allTunes_def [of p2] a1)
      with ih True n h r show ?thesis
        by (simp add: sequenceFields.simps [of p])
    next
      case False
      then have "map Sequence (allTunes p2) = map Sequence (allTunes p1)"
        using handleItem_other [of it p1] h by (intro allTunes_Sequence) simp_all
      with ih False n h r a1 show ?thesis
        by (auto simp: sequenceFields.simps [of p])
    qed
  qed
qed

lemma parseLoop_prefix: "parseLoop p = Inr p' \<Longrightarrow> prefix (tunes p) (tunes p')"
proof (induction p rule: parseLoop.induct)
  case (1 p)
  show ?case
  proof (cases "lexer p")
    case Nil
    with "1.prems" show ?thesis
      by (simp add: parseLoop.simps [of p] nextItem_def)
  next
    case (Cons it rest)
    define p1 where "p1 = p\<lparr>lexer := rest\<rparr>"
    have n: "nextItem p = (Some it, p1)"
      by (simp add: nextItem_def Cons p1_def)
    obtain r p2 where h: "handleItem it p1 = (r, p2)"
      by (cases "handleItem it p1")
    from "1.prems" n h have r: "r = None" and loop: "parseLoop p2 = Inr p'"
      by (auto simp: parseLoop.simps [of p] split: option.splits)
    have "prefix (tunes p2) (tunes p')"
      using "1.IH" [OF n [symmetric] refl h [symmetric] _ loop] r by simp
    moreover have "prefix (tunes p) (tunes p2)"
      using handleItem_prefix [of p1 it] h by (simp add: p1_def)
    ultimately show ?thesis
      by (rule prefix_order.trans [rotated])
  qed
qed


lemma parse_allTunes: "parseLoop p = Inr p' \<Longrightarrow> parse p = Inr (allTunes p')"
  by (simp add: parse_def allTunes_def split: option.splits)

lemma parse_Inr: "parse p = Inr ts \<Longrightarrow> \<exists>p'. parseLoop p = Inr p' \<and> ts = allTunes p'"
  by (auto simp: parse_def allTunes_def split: sum.splits option.splits)

text \<open>
  Claim C2. (1) When \<open>setSequence\<close> succeeds, the output it leaves is the output before
  followed by the tune that was current, if there was one, and the new current tune is
  the zero tune with only the sequence number set, the value of the number item read.
  (2) When the loop of \<open>parse\<close> ends, \<open>parse\<close> returns the output followed by the
  current tune: the last tune is not dropped. (3) The sequence numbers of the tunes that
  \<open>parse\<close> returns are those of the tunes the parser started with, followed by one for
  each X field the loop has handled, in the order of the items.
\<close>

theorem C2_flush_at_sequence_and_at_end:
  "(\<forall>p'. setSequence p = (None, p') \<longrightarrow>
          tunes p' = allTunes p \<and>
          currentTune p' = Some (zeroTune\<lparr>Sequence := Atoi (itemVal (hd (lexer p)))\<rparr>)) \<and>
   (\<forall>p'. parseLoop p = Inr p' \<longrightarrow> parse p = Inr (allTunes p')) \<and>
   (\<forall>ts. parse p = Inr ts \<longrightarrow>
          map Sequence ts = map Sequence (allTunes p) @ sequenceFields p)"
proof (intro conjI allI impI)
  fix p'
  assume "setSequence p = (None, p')"
  then show "tunes p' = allTunes p"
    and "currentTune p' = Some (zeroTune\<lparr>Sequence := Atoi (itemVal (hd (lexer p)))\<rparr>)"
    by (auto simp: setSequence_success)
next
  fix p'
  assume "parseLoop p = Inr p'"
  then show "parse p = Inr (allTunes p')"
    by (rule parse_allTunes)
next
  fix ts
  assume "parse p = Inr ts"
  then obtain p' where "parseLoop p = Inr p'" "ts = allTunes p'"
    using parse_Inr by blast
  then show "map Sequence ts = map Sequence (allTunes p) @ sequenceFields p"
    using parseLoop_sequenceFields by simp
qed

text \<open>The three items of the header line \<open>X:n\<close>.\<close>

definition fieldX :: "string \<Rightarrow> item list" where
  "fieldX n =
     [\<lparr>itemTyp = itemFieldName, itemPos = 0, itemVal = ''X'', itemLine = 0\<rparr>,
      \<lparr>itemTyp = itemNumber, itemPos = 0, itemVal = n, itemLine = 0\<rparr>,
      \<lparr>itemTyp = itemNewline, itemPos = 0, itemVal = [CHR 0x0A], itemLine = 0\<rparr>]"

definition twoTunes :: parser where
  "twoTunes = \<lparr>lexer = fieldX ''1'' @ fieldX ''2'', tunes = [], currentTune = None\<rparr>"

definition secondTune :: parser where
  "secondTune = \<lparr>lexer = tl (fieldX ''2''), tunes = [], currentTune = Some (zeroTune\<lparr>Sequence := 1\<rparr>)\<rparr>"

lemmas parser_run =
  parse_eval scan_eval parseLoop.simps sequenceFields.simps allTunes_def fieldX_def

theorem C2_witness:
  "setSequence secondTune =
     (None, \<lparr>lexer = [], tunes = [zeroTune\<lparr>Sequence := 1\<rparr>],
             currentTune = Some (zeroTune\<lparr>Sequence := 2\<rparr>)\<rparr>) \<and>
   allTunes secondTune = [zeroTune\<lparr>Sequence := 1\<rparr>] \<and>
   parse twoTunes = Inr [zeroTune\<lparr>Sequence := 1\<rparr>, zeroTune\<lparr>Sequence := 2\<rparr>] \<and>
   sequenceFields twoTunes = [1, 2]"
proof -
  have a: "setSequence secondTune =
     (None, \<lparr>lexer = [], tunes = [zeroTune\<lparr>Sequence := 1\<rparr>],
             currentTune = Some (zeroTune\<lparr>Sequence := 2\<rparr>)\<rparr>)"
    by (simp add: secondTune_def parser_run split del: if_split)
  have b: "parse twoTunes = Inr [zeroTune\<lparr>Sequence := 1\<rparr>, zeroTune\<lparr>Sequence := 2\<rparr>]"
    by (simp add: twoTunes_def parser_run split del: if_split)
  have c: "allTunes twoTunes = []"
    by (simp add: twoTunes_def allTunes_def)
  from C2_flush_at_sequence_and_at_end [of secondTune] a
  have "allTunes secondTune = [zeroTune\<lparr>Sequence := 1\<rparr>]"
    by simp
  moreover from C2_flush_at_sequence_and_at_end [of twoTunes] b c
  have "sequenceFields twoTunes = [1, 2]"
    by simp
  ultimately show ?thesis
    using a b by simp
qed


lemma parseLoop_Sequence_prefix:
  "parseLoop p = Inr p' \<Longrightarrow> prefix (map Sequence (allTunes p)) (map Sequence (allTunes p'))"
  using parseLoop_sequenceFields [of p p'] by simp

lemma prefix_allTunes: "prefix (tunes p) (allTunes p)"
  by (simp add: allTunes_def split: option.splits)

text \<open>
  Claim C9. (1) A field other than X changes neither the output nor the sequence number
  of the current tune, whatever the handler returns. (2) Handling an item only appends
  to the output: the tunes already there stay as they are. (3), (4) So the output at any
  moment is a prefix of the output at the end of the loop and of the tunes that \<open>parse\<close>
  returns, and the sequence numbers of the tunes held at any moment, the current one
  included, are a prefix of the sequence numbers returned. A tune is a value here: the
  append \<^verbatim>\<open>append(p.tunes, *p.currentTune)\<close> copies the struct, its lists are only
  ever appended to, and after the copy in \<open>setSequence\<close> the pointer is set to a new
  tune.
\<close>

theorem C9_sequence_and_flushed_tunes_never_change:
  "(\<forall>it :: item. itemVal it \<noteq> [headerX] \<longrightarrow>
          tunes (snd (handleFieldName it p)) = tunes p \<and>
          map_option Sequence (currentTune (snd (handleFieldName it p))) =
            map_option Sequence (currentTune p)) \<and>
   (\<forall>it. prefix (tunes p) (tunes (snd (handleItem it p)))) \<and>
   (\<forall>p'. parseLoop p = Inr p' \<longrightarrow> prefix (tunes p) (tunes p')) \<and>
   (\<forall>ts. parse p = Inr ts \<longrightarrow>
          prefix (tunes p) ts \<and> prefix (map Sequence (allTunes p)) (map Sequence ts))"
proof (intro conjI allI impI)
  fix it :: item
  assume "itemVal it \<noteq> [headerX]"
  then show "tunes (snd (handleFieldName it p)) = tunes p"
    and "map_option Sequence (currentTune (snd (handleFieldName it p))) =
           map_option Sequence (currentTune p)"
    using handleFieldName_keeps [of it p] by simp_all
next
  fix it
  show "prefix (tunes p) (tunes (snd (handleItem it p)))"
    by (rule handleItem_prefix)
next
  fix p'
  assume "parseLoop p = Inr p'"
  then show "prefix (tunes p) (tunes p')"
    by (rule parseLoop_prefix)
next
  fix ts
  assume "parse p = Inr ts"
  then obtain p' where l: "parseLoop p = Inr p'" and ts: "ts = allTunes p'"
    using parse_Inr by blast
  show "prefix (tunes p) ts"
    using parseLoop_prefix [OF l] prefix_allTunes [of p'] ts
    by (auto intro: prefix_order.trans)
  show "prefix (map Sequence (allTunes p)) (map Sequence ts)"
    using parseLoop_Sequence_prefix [OF l] ts by simp
qed

text \<open>
  A parser in the middle of its work: one tune is in the output, the tune with sequence
  number 2 is the current one, and the items left are a title field and an X field.
\<close>

definition midway :: parser where
  "midway =
     \<lparr>lexer =
        [\<lparr>itemTyp = itemFieldName, itemPos = 0, itemVal = ''T'', itemLine = 0\<rparr>,
         \<lparr>itemTyp = itemString, itemPos = 0, itemVal = ''Reel'', itemLine = 0\<rparr>,
         \<lparr>itemTyp = itemNewline, itemPos = 0, itemVal = [CHR 0x0A], itemLine = 0\<rparr>]
        @ fieldX ''3'',
      tunes = [zeroTune\<lparr>Sequence := 1\<rparr>],
      currentTune = Some (zeroTune\<lparr>Sequence := 2\<rparr>)\<rparr>"

theorem C9_witness:
  "parse midway =
     Inr [zeroTune\<lparr>Sequence := 1\<rparr>, zeroTune\<lparr>Sequence := 2, Title := ''Reel''\<rparr>,
          zeroTune\<lparr>Sequence := 3\<rparr>] \<and>
   tunes midway = [zeroTune\<lparr>Sequence := 1\<rparr>] \<and>
   map Sequence (allTunes midway) = [1, 2] \<and>
   prefix [zeroTune\<lparr>Sequence := 1\<rparr>]
     [zeroTune\<lparr>Sequence := 1\<rparr>, zeroTune\<lparr>Sequence := 2, Title := ''Reel''\<rparr>,
      zeroTune\<lparr>Sequence := 3\<rparr>] \<and>
   map_option Sequence (currentTune (snd (handleFieldName (hd (lexer midway)) midway))) = Some 2"
proof -
  have a: "parse midway =
     Inr [zeroTune\<lparr>Sequence := 1\<rparr>, zeroTune\<lparr>Sequence := 2, Title := ''Reel''\<rparr>,
          zeroTune\<lparr>Sequence := 3\<rparr>]"
    by (simp add: midway_def parser_run split del: if_split)
  have b: "tunes midway = [zeroTune\<lparr>Sequence := 1\<rparr>]"
    "map Sequence (allTunes midway) = [1, 2]"
    by (simp_all add: midway_def allTunes_def zeroTune_def)
  have c: "itemVal (hd (lexer midway)) \<noteq> [headerX]"
    by (simp add: midway_def headerX_def)
  have d: "map_option Sequence (currentTune midway) = Some 2"
    by (simp add: midway_def)
  from C9_sequence_and_flushed_tunes_never_change [of midway] a b c d
  show ?thesis
    by simp
qed


section \<open>Claim C6: the meter field\<close>

text \<open>An item as the tests of the parser build it: a type and a value.\<close>

definition tok :: "itemType \<Rightarrow> string \<Rightarrow> item" where
  "tok ty v = \<lparr>itemTyp = ty, itemPos = 0, itemVal = v, itemLine = 0\<rparr>"

lemma meterNumerator_run:
  assumes "\<forall>it \<in> set pre. itemTyp it = itemNumber \<or> itemTyp it = itemPlus"
    and "itemTyp dv = itemDivide"
  shows "meterNumerator (pre @ dv # rest) acc =
           (Inr (acc @ map (\<lambda>it. Atoi (itemVal it)) (filter (\<lambda>it. itemTyp it = itemNumber) pre)),
            rest)"
  using assms
proof (induction pre arbitrary: acc)
  case Nil
  then show ?case by simp
next
  case (Cons it pre)
  then show ?case by auto
qed

lemma dropToNewline_run:
  assumes "\<forall>it \<in> set junk. itemTyp it \<noteq> itemNewline" and "itemTyp nl = itemNewline"
  shows "dropToNewline (junk @ nl # after) = after"
  using assms by (induction junk) auto

text \<open>
  The number that a text of decimal digits denotes, most significant digit first:
  \<open>decimalFrom n\<close> continues from the number \<open>n\<close> of the digits read before.
\<close>

fun decimalFrom :: "nat \<Rightarrow> string \<Rightarrow> nat" where
  "decimalFrom n [] = n"
| "decimalFrom n (c # cs) = decimalFrom (n * 10 + (of_char c - 48)) cs"

definition decimalValue :: "string \<Rightarrow> nat" where
  "decimalValue ds = decimalFrom 0 ds"

text \<open>A text of one or more of the digits 0 to 9, as the scanner sends in a number item.\<close>

definition isDecimal :: "string \<Rightarrow> bool" where
  "isDecimal ds =
     (ds \<noteq> [] \<and> (\<forall>c \<in> set ds. 48 \<le> (of_char c :: nat) \<and> (of_char c :: nat) \<le> 57))"

lemma decimalFrom_ge: "n \<le> decimalFrom n ds"
proof (induction ds arbitrary: n)
  case Nil
  show ?case by simp
next
  case (Cons c cs)
  have "n \<le> n * 10 + (of_char c - 48)"
    by simp
  also have "\<dots> \<le> decimalFrom (n * 10 + (of_char c - 48)) cs"
    by (rule Cons.IH)
  finally show ?case
    by simp
qed

lemma parseUintLoop_decimal:
  assumes "\<forall>c \<in> set ds. 48 \<le> (of_char c :: nat) \<and> (of_char c :: nat) \<le> 57"
    and "n \<le> maxUint64"
  shows "parseUintLoop ds n =
           (if decimalFrom n ds \<le> maxUint64 then (decimalFrom n ds, None)
            else (maxUint64, Some ErrRange))"
  using assms
proof (induction ds arbitrary: n)
  case Nil
  then show ?case by simp
next
  case (Cons c cs)
  define d where "d = (of_char c :: nat) - 48"
  have c: "\<not> ((of_char c :: nat) < 48 \<or> 57 < (of_char c :: nat))"
    using Cons.prems by auto
  have ge: "n * 10 + d \<le> decimalFrom (n * 10 + d) cs"
    by (rule decimalFrom_ge)
  show ?case
  proof (cases "maxUint64 div 10 + 1 \<le> n")
    case True
    then have "maxUint64 < n * 10"
      by (simp add: maxUint64_def)
    with ge have "maxUint64 < decimalFrom (n * 10 + d) cs"
      by simp
    with True c show ?thesis
      by (simp add: d_def Let_def)
  next
    case False
    show ?thesis
    proof (cases "maxUint64 < n * 10 + d")
      case True
      with ge have "maxUint64 < decimalFrom (n * 10 + d) cs"
        by simp
      with True False c show ?thesis
        by (simp add: d_def Let_def)
    next
      case b: False
      have "parseUintLoop cs (n * 10 + d) =
              (if decimalFrom (n * 10 + d) cs \<le> maxUint64 then (decimalFrom (n * 10 + d) cs, None)
               else (maxUint64, Some ErrRange))"
        using Cons.IH [of "n * 10 + d"] Cons.prems b by simp
      with False b c show ?thesis
        by (simp add: d_def Let_def)
    qed
  qed
qed

text \<open>
  \<open>strconv.Atoi\<close> on a text of decimal digits: the number it denotes when that is below
  \<open>2^63\<close>, and the largest \<open>int\<close> otherwise.
\<close>

lemma Atoi_decimal:
  assumes "isDecimal ds"
  shows "Atoi ds =
           (if decimalValue ds < 9223372036854775808 then int (decimalValue ds)
            else 9223372036854775807)"
proof -
  obtain c cs where ds: "ds = c # cs"
    using assms by (cases ds) (auto simp: isDecimal_def)
  have r: "48 \<le> (of_char c :: nat)"
    using assms ds by (simp add: isDecimal_def)
  have "(of_char CHR ''+'' :: nat) = 43" "(of_char CHR ''-'' :: nat) = 45"
    by simp_all
  with r have h: "c \<noteq> CHR ''+''" "c \<noteq> CHR ''-''"
    by auto
  have p: "ParseUint ds =
           (if decimalValue ds \<le> maxUint64 then (decimalValue ds, None)
            else (maxUint64, Some ErrRange))"
    using assms parseUintLoop_decimal [of ds 0]
    by (simp add: ParseUint_def isDecimal_def decimalValue_def)
  have n: "ds \<noteq> []" "hd ds \<noteq> CHR ''+''" "hd ds \<noteq> CHR ''-''"
    using h by (simp_all add: ds)
  show ?thesis
  proof (cases "decimalValue ds \<le> maxUint64")
    case True
    then show ?thesis
      using n by (simp add: Atoi_def p Let_def)
  next
    case False
    then have "\<not> decimalValue ds < 9223372036854775808"
      by (simp add: maxUint64_def)
    with False show ?thesis
      using n by (simp add: Atoi_def p Let_def maxUint64_def)
  qed
qed

text \<open>
  The input of the example of the claim: an X field, so that there is a current tune,
  and the meter field \<open>M:4+2/4\<close>.
\<close>

definition meterLines :: string where
  "meterLines = ''X:1'' @ [CHR 0x0A] @ ''M:4+2/4'' @ [CHR 0x0A]"

text \<open>
  A meter field that comes before any X field, and a meter field whose first number is
  \<open>2^63\<close>.
\<close>

definition meterFirstLine :: string where
  "meterFirstLine = ''M:4+2/4'' @ [CHR 0x0A]"

definition hugeMeter :: parser where
  "hugeMeter =
     \<lparr>lexer = [tok itemNumber ''9223372036854775808'', tok itemDivide ''/'',
               tok itemNumber ''4'', tok itemNewline [CHR 0x0A]],
      tunes = [], currentTune = Some zeroTune\<rparr>"

text \<open>
  Claim C6 says that the parser reads every meter field of that form into the meter of
  the tune, each number item by its integer value. \<open>Read\<close> starts with no current tune:
  on the meter field of the example with no X field before it, \<open>setMeter\<close> collects the
  numbers and then writes the meter through the \<open>nil\<close> pointer. And \<open>strconv.Atoi\<close>
  gives the largest \<open>int\<close> for a number that an \<open>int\<close> cannot hold: the number item
  \<open>9223372036854775808\<close> enters the numerator as \<open>9223372036854775807\<close>.
\<close>

theorem C6_counterexample:
  "Read latin1 meterFirstLine = Some (Inl NilDereference) \<and>
   setMeter hugeMeter =
     (None,
      \<lparr>lexer = [], tunes = [],
        currentTune =
          Some (zeroTune\<lparr>Meter := \<lparr>Meter.Numerator = [9223372036854775807],
                                    Meter.Denominator = 4\<rparr>\<rparr>)\<rparr>)"
proof
  show "Read latin1 meterFirstLine = Some (Inl NilDereference)"
    by (simp add: meterFirstLine_def scan_eval scan_loops parse_eval parseLoop.simps
          split del: if_split)
next
  show "setMeter hugeMeter =
     (None,
      \<lparr>lexer = [], tunes = [],
        currentTune =
          Some (zeroTune\<lparr>Meter := \<lparr>Meter.Numerator = [9223372036854775807],
                                    Meter.Denominator = 4\<rparr>\<rparr>)\<rparr>)"
    by (simp add: hugeMeter_def tok_def parse_eval split del: if_split)
qed

text \<open>
  Claim C6, as amended. The items of a meter field, after the field name: a run \<open>pre\<close>
  of number and plus items, a divide item, and the items \<open>rest\<close>; the parser has a
  current tune \<open>t\<close>.
  (1) When \<open>rest\<close> begins with a number item \<open>den\<close>, \<open>setMeter\<close> succeeds and sets the
  meter of the current tune to the values of the number items of \<open>pre\<close>, in order, over
  the value of \<open>den\<close>, the plus items leaving no trace, and it leaves the items that
  follow the next newline item.
  (2) When \<open>rest\<close> is empty or begins with another item, \<open>setMeter\<close> returns the error of
  \<open>expect\<close> for a number, and the tune is as it was.
  (3) The items left after a newline item \<open>nl\<close> that follows items \<open>junk\<close> with no
  newline among them are those after \<open>nl\<close>, and none are left when there is no newline
  item.
  (4) The value of a number item whose text is one or more decimal digits is the number
  the digits denote when that is below \<open>2^63\<close>, and \<open>2^63 - 1\<close> otherwise.
  (5) The text \<open>X:1\<close>, \<open>M:4+2/4\<close> is read as one tune with the numerator \<open>[4, 2]\<close> and the
  denominator 4.
\<close>

theorem C6_setMeter_amended:
  assumes "\<forall>it \<in> set pre. itemTyp it = itemNumber \<or> itemTyp it = itemPlus"
    and "itemTyp dv = itemDivide"
    and "lexer p = pre @ dv # rest"
    and "currentTune p = Some t"
  shows "(\<forall>den rest'. rest = den # rest' \<and> itemTyp den = itemNumber \<longrightarrow>
            setMeter p =
              (None,
               p\<lparr>lexer := dropToNewline rest',
                 currentTune :=
                   Some (t\<lparr>Meter :=
                           \<lparr>Meter.Numerator =
                              map (\<lambda>it. Atoi (itemVal it))
                                (filter (\<lambda>it. itemTyp it = itemNumber) pre),
                            Meter.Denominator = Atoi (itemVal den)\<rparr>\<rparr>)\<rparr>)) \<and>
         (rest = [] \<or> itemTyp (hd rest) \<noteq> itemNumber \<longrightarrow>
            setMeter p = (Some (ExpectedOneOf [itemNumber]), p\<lparr>lexer := tl rest\<rparr>)) \<and>
         (\<forall>(junk :: item list) (nl :: item) after.
            itemTyp nl = itemNewline \<and> (\<forall>it \<in> set junk. itemTyp it \<noteq> itemNewline)
            \<longrightarrow> dropToNewline (junk @ nl # after) = after \<and> dropToNewline junk = []) \<and>
         (\<forall>ds. isDecimal ds \<longrightarrow>
            Atoi ds =
              (if decimalValue ds < 9223372036854775808 then int (decimalValue ds)
               else 9223372036854775807)) \<and>
         Read U meterLines =
           Some (Inr [zeroTune\<lparr>Sequence := 1,
                       Meter := \<lparr>Meter.Numerator = [4, 2], Meter.Denominator = 4\<rparr>\<rparr>])"
proof (intro conjI allI impI)
  fix den rest'
  assume "rest = den # rest' \<and> itemTyp den = itemNumber"
  then show "setMeter p =
              (None,
               p\<lparr>lexer := dropToNewline rest',
                 currentTune :=
                   Some (t\<lparr>Meter :=
                           \<lparr>Meter.Numerator =
                              map (\<lambda>it. Atoi (itemVal it))
                                (filter (\<lambda>it. itemTyp it = itemNumber) pre),
                            Meter.Denominator = Atoi (itemVal den)\<rparr>\<rparr>)\<rparr>)"
    using assms(3,4) meterNumerator_run [OF assms(1,2), of rest "[]"]
    by (simp add: setMeter_def expect_cases consumeToNewline_def)
next
  assume "rest = [] \<or> itemTyp (hd rest) \<noteq> itemNumber"
  then show "setMeter p = (Some (ExpectedOneOf [itemNumber]), p\<lparr>lexer := tl rest\<rparr>)"
    using assms(3,4) meterNumerator_run [OF assms(1,2), of rest "[]"]
    by (cases rest) (simp_all add: setMeter_def expect_cases)
next
  fix junk :: "item list" and nl :: item and after :: "item list"
  assume "itemTyp nl = itemNewline \<and> (\<forall>it \<in> set junk. itemTyp it \<noteq> itemNewline)"
  then show "dropToNewline (junk @ nl # after) = after"
    using dropToNewline_run [of junk nl after] by simp
next
  fix junk :: "item list" and nl :: item
  assume "itemTyp nl = itemNewline \<and> (\<forall>it \<in> set junk. itemTyp it \<noteq> itemNewline)"
  then have "\<forall>it \<in> set junk. itemTyp it \<noteq> itemNewline"
    by simp
  then show "dropToNewline junk = []"
    by (induction junk) simp_all
next
  fix ds
  assume "isDecimal ds"
  then show "Atoi ds =
              (if decimalValue ds < 9223372036854775808 then int (decimalValue ds)
               else 9223372036854775807)"
    by (rule Atoi_decimal)
next
  show "Read U meterLines =
           Some (Inr [zeroTune\<lparr>Sequence := 1,
                       Meter := \<lparr>Meter.Numerator = [4, 2], Meter.Denominator = 4\<rparr>\<rparr>])"
    by (simp add: meterLines_def scan_eval scan_loops parse_eval parseLoop.simps
          split del: if_split)
qed

text \<open>
  A meter field with numbers of two digits, and one with no number after the divide.
\<close>

definition wideMeter :: parser where
  "wideMeter =
     \<lparr>lexer = [tok itemNumber ''12'', tok itemPlus ''+'', tok itemNumber ''3'',
               tok itemDivide ''/'', tok itemNumber ''16'',
               tok itemString ''x'', tok itemNewline [CHR 0x0A], tok itemFieldName ''T''],
      tunes = [], currentTune = Some zeroTune\<rparr>"

definition noDenominator :: parser where
  "noDenominator =
     \<lparr>lexer = [tok itemNumber ''4'', tok itemDivide ''/'', tok itemNewline [CHR 0x0A]],
      tunes = [], currentTune = Some zeroTune\<rparr>"

theorem C6_witness:
  "setMeter wideMeter =
     (None,
      \<lparr>lexer = [tok itemFieldName ''T''], tunes = [],
        currentTune =
          Some (zeroTune\<lparr>Meter := \<lparr>Meter.Numerator = [12, 3], Meter.Denominator = 16\<rparr>\<rparr>)\<rparr>) \<and>
   setMeter noDenominator =
     (Some (ExpectedOneOf [itemNumber]), \<lparr>lexer = [], tunes = [], currentTune = Some zeroTune\<rparr>)"
proof
  let ?pre = "[tok itemNumber ''12'', tok itemPlus ''+'', tok itemNumber ''3'']"
  let ?dv = "tok itemDivide ''/''"
  let ?den = "tok itemNumber ''16''"
  let ?junk = "[tok itemString ''x'']"
  let ?nl = "tok itemNewline [CHR 0x0A]"
  let ?after = "[tok itemFieldName ''T'']"
  have 1: "\<forall>it \<in> set ?pre. itemTyp it = itemNumber \<or> itemTyp it = itemPlus"
    by (simp add: tok_def)
  have 2: "itemTyp ?dv = itemDivide"
    by (simp add: tok_def)
  have 3: "lexer wideMeter = ?pre @ ?dv # (?den # ?junk @ ?nl # ?after)"
    by (simp add: wideMeter_def)
  have 4: "currentTune wideMeter = Some zeroTune"
    by (simp add: wideMeter_def)
  note c6 = C6_setMeter_amended [OF 1 2 3 4, of latin1]
  have 5: "itemTyp ?den = itemNumber"
    and 6: "itemTyp ?nl = itemNewline \<and> (\<forall>it \<in> set ?junk. itemTyp it \<noteq> itemNewline)"
    by (simp_all add: tok_def)
  have d: "isDecimal ''12''" "isDecimal ''3''" "isDecimal ''16''"
    by (simp_all add: isDecimal_def)
  have a: "Atoi ''12'' = 12" "Atoi ''3'' = 3" "Atoi ''16'' = 16"
    using c6 d by (simp_all add: decimalValue_def)
  have s: "setMeter wideMeter =
             (None,
              wideMeter\<lparr>lexer := dropToNewline (?junk @ ?nl # ?after),
                currentTune :=
                  Some (zeroTune\<lparr>Meter :=
                          \<lparr>Meter.Numerator =
                             map (\<lambda>it. Atoi (itemVal it))
                               (filter (\<lambda>it. itemTyp it = itemNumber) ?pre),
                           Meter.Denominator = Atoi (itemVal ?den)\<rparr>\<rparr>)\<rparr>)"
    using c6 5 by blast
  have r: "dropToNewline (?junk @ ?nl # ?after) = ?after"
    using c6 6 by blast
  show "setMeter wideMeter =
     (None,
      \<lparr>lexer = [tok itemFieldName ''T''], tunes = [],
        currentTune =
          Some (zeroTune\<lparr>Meter := \<lparr>Meter.Numerator = [12, 3], Meter.Denominator = 16\<rparr>\<rparr>)\<rparr>)"
    unfolding s r by (simp add: tok_def a wideMeter_def)
next
  let ?pre = "[tok itemNumber ''4'']"
  let ?dv = "tok itemDivide ''/''"
  let ?rest = "[tok itemNewline [CHR 0x0A]]"
  have 1: "\<forall>it \<in> set ?pre. itemTyp it = itemNumber \<or> itemTyp it = itemPlus"
    by (simp add: tok_def)
  have 2: "itemTyp ?dv = itemDivide"
    by (simp add: tok_def)
  have 3: "lexer noDenominator = ?pre @ ?dv # ?rest"
    by (simp add: noDenominator_def)
  have 4: "currentTune noDenominator = Some zeroTune"
    by (simp add: noDenominator_def)
  have 5: "?rest = [] \<or> itemTyp (hd ?rest) \<noteq> itemNumber"
    by (simp add: tok_def)
  from C6_setMeter_amended [OF 1 2 3 4, of latin1] 5
  have "setMeter noDenominator =
          (Some (ExpectedOneOf [itemNumber]), noDenominator\<lparr>lexer := tl ?rest\<rparr>)"
    by blast
  then show "setMeter noDenominator =
     (Some (ExpectedOneOf [itemNumber]), \<lparr>lexer = [], tunes = [], currentTune = Some zeroTune\<rparr>)"
    by (simp add: noDenominator_def)
qed


section \<open>Claim C10: fields before the first X field\<close>

text \<open>
  The field names by what their handler does: the simple string fields, the fields that
  append to a list, and the fields whose content is discarded.
\<close>

definition stringFields :: "string list" where
  "stringFields =
     [[headerA], [headerB], [headerC], [headerD], [headerF], [headerG], [headerO], [headerR],
      [headerS], [headerT], [headerZ]]"

definition listFields :: "string list" where
  "listFields = [[headerH], [headerN], [headerW]]"

definition discardedFields :: "string list" where
  "discardedFields =
     [[headerI], [headerK], [headerm], [headerP], [headerQ], [headerr], [headers], [headerU],
      [headerV], [headerw]]"

text \<open>
  The items a meter field needs for \<open>setMeter\<close> to reach its assignment, and those a
  note-length field needs.
\<close>

definition meterItems :: "item list \<Rightarrow> bool" where
  "meterItems xs =
     (case meterNumerator xs [] of
        (Inl e, rest) \<Rightarrow> False
      | (Inr num, rest) \<Rightarrow> rest \<noteq> [] \<and> itemTyp (hd rest) = itemNumber)"

definition noteLengthItems :: "item list \<Rightarrow> bool" where
  "noteLengthItems xs =
     (case xs of
        n # sep # d # rest \<Rightarrow>
          itemTyp n = itemNumber \<and> itemTyp sep = itemDivide \<and> itemTyp d = itemNumber
      | _ \<Rightarrow> False)"

lemmas header_defs =
  headerA_def headerB_def headerC_def headerD_def headerF_def headerG_def headerH_def
  headerI_def headerK_def headerL_def headerM_def headerm_def headerN_def headerO_def
  headerP_def headerQ_def headerR_def headerr_def headerS_def headers_def headerT_def
  headerU_def headerV_def headerW_def headerw_def headerX_def headerZ_def

lemma setStringField_nil:
  "currentTune p = None \<Longrightarrow> fst (setStringField upd p) = Some NilDereference"
  using expectString_keeps [of p]
  by (cases "expectString p") (auto simp: setStringField_def)

lemma addToList_nil:
  "currentTune p = None \<Longrightarrow>
     fst (addToList upd p) =
       (if lexer p \<noteq> [] \<and> itemTyp (hd (lexer p)) = itemString then Some NilDereference
        else Some (ExpectedOneOf [itemString]))"
  by (auto simp: addToList_def expect_cases split: list.splits)

lemma meterNumerator_no_panic: "meterNumerator xs acc \<noteq> (Inl NilDereference, rest)"
  by (induction xs arbitrary: acc) auto

lemma setMeter_nil:
  "currentTune p = None \<Longrightarrow>
     fst (setMeter p) = Some NilDereference \<longleftrightarrow> meterItems (lexer p)"
  by (auto simp: setMeter_def meterItems_def expect_cases meterNumerator_no_panic
           split: prod.splits sum.splits list.splits)

lemma setNoteLength_nil:
  "currentTune p = None \<Longrightarrow>
     fst (setNoteLength p) = Some NilDereference \<longleftrightarrow> noteLengthItems (lexer p)"
  by (auto simp: setNoteLength_def noteLengthItems_def expect_cases split: list.splits)


text \<open>
  What \<open>setMeter\<close> and \<open>setNoteLength\<close> end in when there is no current tune, by the
  items left: the error of the first item that is missing or of another type, and the
  dereference when none is.
\<close>

lemma meterNumerator_dropWhile:
  "\<exists>num. meterNumerator xs acc =
     (case dropWhile (\<lambda>x. itemTyp x = itemNumber \<or> itemTyp x = itemPlus) xs of
        [] \<Rightarrow> (Inr num, [])
      | y # ys \<Rightarrow>
          if itemTyp y = itemDivide then (Inr num, ys)
          else (Inl (ExpectedNumberOrPlus y), ys))"
proof (induction xs arbitrary: acc)
  case Nil
  show ?case by simp
next
  case (Cons x xs)
  show ?case
    using Cons.IH [of "acc @ [Atoi (itemVal x)]"] Cons.IH [of acc] by auto
qed

lemma setMeter_nil_result:
  assumes "currentTune p = None"
  shows "fst (setMeter p) =
           (case dropWhile (\<lambda>x. itemTyp x = itemNumber \<or> itemTyp x = itemPlus) (lexer p) of
              [] \<Rightarrow> Some (ExpectedOneOf [itemNumber])
            | y # ys \<Rightarrow>
                if itemTyp y \<noteq> itemDivide then Some (ExpectedNumberOrPlus y)
                else if ys \<noteq> [] \<and> itemTyp (hd ys) = itemNumber then Some NilDereference
                else Some (ExpectedOneOf [itemNumber]))"
proof -
  define zs where "zs = dropWhile (\<lambda>x. itemTyp x = itemNumber \<or> itemTyp x = itemPlus) (lexer p)"
  obtain num where
    m: "meterNumerator (lexer p) [] =
     (case zs of
        [] \<Rightarrow> (Inr num, [])
      | y # ys \<Rightarrow>
          if itemTyp y = itemDivide then (Inr num, ys)
          else (Inl (ExpectedNumberOrPlus y), ys))"
    unfolding zs_def using meterNumerator_dropWhile [of "lexer p" "[]"] by blast
  have "fst (setMeter p) =
           (case zs of
              [] \<Rightarrow> Some (ExpectedOneOf [itemNumber])
            | y # ys \<Rightarrow>
                if itemTyp y \<noteq> itemDivide then Some (ExpectedNumberOrPlus y)
                else if ys \<noteq> [] \<and> itemTyp (hd ys) = itemNumber then Some NilDereference
                else Some (ExpectedOneOf [itemNumber]))"
  proof (cases zs)
    case Nil
    with m assms show ?thesis
      by (simp add: setMeter_def expect_cases)
  next
    case (Cons y ys)
    with m assms show ?thesis
      by (cases ys) (simp_all add: setMeter_def expect_cases)
  qed
  then show ?thesis
    by (simp only: zs_def)
qed

lemma setNoteLength_nil_result:
  assumes "currentTune p = None"
  shows "fst (setNoteLength p) =
           (if lexer p = [] \<or> itemTyp (lexer p ! 0) \<noteq> itemNumber
            then Some (ExpectedOneOf [itemNumber])
            else if length (lexer p) < 2 \<or> itemTyp (lexer p ! 1) \<noteq> itemDivide
            then Some (ExpectedOneOf [itemDivide])
            else if length (lexer p) < 3 \<or> itemTyp (lexer p ! 2) \<noteq> itemNumber
            then Some (ExpectedOneOf [itemNumber])
            else Some NilDereference)"
proof (cases "lexer p")
  case Nil
  then show ?thesis
    by (simp add: setNoteLength_def expect_cases)
next
  case a: (Cons n r1)
  show ?thesis
  proof (cases r1)
    case Nil
    with a assms show ?thesis
      by (simp add: setNoteLength_def expect_cases)
  next
    case b: (Cons sep r2)
    show ?thesis
    proof (cases r2)
      case Nil
      with a b assms show ?thesis
        by (simp add: setNoteLength_def expect_cases)
    next
      case (Cons d r3)
      with a b assms show ?thesis
        by (simp add: setNoteLength_def expect_cases)
    qed
  qed
qed


lemma expect_no_panic: "fst (expect ts q) \<noteq> Inl NilDereference"
  by (simp add: expect_cases split: list.splits)

lemma expectNewline_no_panic: "fst (expectNewline q) \<noteq> Some NilDereference"
  by (simp add: expectNewline_cases split: list.splits)

lemma setStringField_with_tune:
  assumes "currentTune p \<noteq> None"
  shows "fst (setStringField upd p) \<noteq> Some NilDereference \<and>
         currentTune (snd (setStringField upd p)) \<noteq> None"
proof -
  obtain s err p1 where e: "expectString p = ((s, err), p1)"
    by (cases "expectString p") auto
  have c: "currentTune p1 = currentTune p"
    using expectString_keeps [of p] e by simp
  have "err \<noteq> Some NilDereference"
    using e expect_no_panic [of "[itemString]" p]
      expectNewline_no_panic [of "snd (expect [itemString] p)"]
    by (auto simp: expectString_def split: prod.splits sum.splits)
  with e c assms show ?thesis
    by (auto simp: setStringField_def)
qed

lemma addToList_with_tune:
  assumes "currentTune p \<noteq> None"
  shows "fst (addToList upd p) \<noteq> Some NilDereference \<and>
         currentTune (snd (addToList upd p)) \<noteq> None"
proof -
  obtain r p1 where e: "expect [itemString] p = (r, p1)"
    by (cases "expect [itemString] p")
  have c: "currentTune p1 = currentTune p"
    using expect_keeps [of "[itemString]" p] e by simp
  show ?thesis
  proof (cases r)
    case (Inl x)
    with e c assms expect_no_panic [of "[itemString]" p] show ?thesis
      by (auto simp: addToList_def)
  next
    case (Inr it)
    obtain t where t: "currentTune p1 = Some t"
      using c assms by auto
    show ?thesis
      using e Inr t
        expectNewline_no_panic [of "p1\<lparr>currentTune := Some (upd (itemVal it) t)\<rparr>"]
        expectNewline_keeps [of "p1\<lparr>currentTune := Some (upd (itemVal it) t)\<rparr>"]
      by (simp add: addToList_def)
  qed
qed

lemma setMeter_with_tune:
  assumes "currentTune p \<noteq> None"
  shows "fst (setMeter p) \<noteq> Some NilDereference \<and> currentTune (snd (setMeter p)) \<noteq> None"
proof -
  obtain r rest where m: "meterNumerator (lexer p) [] = (r, rest)"
    by (cases "meterNumerator (lexer p) []")
  show ?thesis
  proof (cases r)
    case (Inl x)
    with m assms meterNumerator_no_panic [of "lexer p" "[]" rest] show ?thesis
      by (auto simp: setMeter_def)
  next
    case (Inr num)
    obtain r1 p1 where e: "expect [itemNumber] (p\<lparr>lexer := rest\<rparr>) = (r1, p1)"
      by (cases "expect [itemNumber] (p\<lparr>lexer := rest\<rparr>)")
    have c: "currentTune p1 = currentTune p"
      using expect_keeps [of "[itemNumber]" "p\<lparr>lexer := rest\<rparr>"] e by simp
    show ?thesis
    proof (cases r1)
      case (Inl x)
      with m Inr e c assms expect_no_panic [of "[itemNumber]" "p\<lparr>lexer := rest\<rparr>"]
      show ?thesis
        by (auto simp: setMeter_def)
    next
      case (Inr it)
      obtain t where t: "currentTune p1 = Some t"
        using c assms by auto
      with m \<open>r = Inr num\<close> e Inr show ?thesis
        by (simp add: setMeter_def consumeToNewline_def)
    qed
  qed
qed

lemma setNoteLength_with_tune:
  assumes "currentTune p \<noteq> None"
  shows "fst (setNoteLength p) \<noteq> Some NilDereference \<and>
         currentTune (snd (setNoteLength p)) \<noteq> None"
proof -
  obtain r1 p1 where e1: "expect [itemNumber] p = (r1, p1)"
    by (cases "expect [itemNumber] p")
  obtain r2 p2 where e2: "expect [itemDivide] p1 = (r2, p2)"
    by (cases "expect [itemDivide] p1")
  obtain r3 p3 where e3: "expect [itemNumber] p2 = (r3, p3)"
    by (cases "expect [itemNumber] p2")
  have c1: "currentTune p1 = currentTune p"
    using expect_keeps [of "[itemNumber]" p] e1 by simp
  have c2: "currentTune p2 = currentTune p"
    using expect_keeps [of "[itemDivide]" p1] e2 c1 by simp
  have c3: "currentTune p3 = currentTune p"
    using expect_keeps [of "[itemNumber]" p2] e3 c2 by simp
  obtain t where t: "currentTune p3 = Some t"
    using c3 assms by auto
  have n1: "r1 \<noteq> Inl NilDereference"
    using expect_no_panic [of "[itemNumber]" p] e1 by simp
  have n2: "r2 \<noteq> Inl NilDereference"
    using expect_no_panic [of "[itemDivide]" p1] e2 by simp
  have n3: "r3 \<noteq> Inl NilDereference"
    using expect_no_panic [of "[itemNumber]" p2] e3 by simp
  show ?thesis
    using e1 e2 e3 c1 c2 c3 t n1 n2 n3 assms
    by (cases r1; cases r2; cases r3)
       (auto simp: setNoteLength_def consumeToNewline_def split: option.splits)
qed

lemma setSequence_with_tune:
  "fst (setSequence p) \<noteq> Some NilDereference \<and>
   (currentTune p \<noteq> None \<longrightarrow> currentTune (snd (setSequence p)) \<noteq> None)"
proof -
  obtain r p1 where e: "expect [itemNumber] p = (r, p1)"
    by (cases "expect [itemNumber] p")
  have c: "currentTune p1 = currentTune p"
    using expect_keeps [of "[itemNumber]" p] e by simp
  show ?thesis
  proof (cases r)
    case (Inl x)
    with e c expect_no_panic [of "[itemNumber]" p] show ?thesis
      by (auto simp: setSequence_def)
  next
    case (Inr it)
    define p2 where "p2 = (case currentTune p1 of None \<Rightarrow> p1 | Some t \<Rightarrow> p1\<lparr>tunes := tunes p1 @ [t]\<rparr>)"
    define p3 where "p3 = p2\<lparr>currentTune := Some (zeroTune\<lparr>Sequence := Atoi (itemVal it)\<rparr>)\<rparr>"
    have "setSequence p = expectNewline p3"
      using e Inr by (simp add: setSequence_def p2_def p3_def Let_def)
    moreover have "currentTune p3 \<noteq> None"
      by (simp add: p3_def)
    ultimately show ?thesis
      using expectNewline_no_panic [of p3] expectNewline_keeps [of p3] by simp
  qed
qed

lemma handleFieldName_cases:
  assumes "\<And>upd. P (setStringField upd p)" and "\<And>upd. P (addToList upd p)"
    and "P (consumeToNewline p)" and "P (setMeter p)" and "P (setNoteLength p)"
    and "P (setSequence p)" and "P (Some Unhandled, p)"
  shows "P (handleFieldName it p)"
  by (simp add: handleFieldName_def Let_def assms addNotes_def addHistory_def
        addWordsAfterTune_def)

lemma no_panic_with_tune:
  assumes "currentTune p \<noteq> None"
  shows "fst (handleFieldName it p) \<noteq> Some NilDereference \<and>
         currentTune (snd (handleFieldName it p)) \<noteq> None"
  using assms
  by (rule_tac P = "\<lambda>r. fst r \<noteq> Some NilDereference \<and> currentTune (snd r) \<noteq> None"
        in handleFieldName_cases)
     (simp_all add: setStringField_with_tune addToList_with_tune setMeter_with_tune
        setNoteLength_with_tune setSequence_with_tune consumeToNewline_def)

lemma parseLoop_no_panic:
  "currentTune p \<noteq> None \<Longrightarrow> parseLoop p \<noteq> Inl NilDereference"
proof (induction p rule: parseLoop.induct)
  case (1 p)
  show ?case
  proof (cases "lexer p")
    case Nil
    then show ?thesis
      by (simp add: parseLoop.simps [of p] nextItem_def)
  next
    case (Cons it rest)
    define p1 where "p1 = p\<lparr>lexer := rest\<rparr>"
    have n: "nextItem p = (Some it, p1)"
      by (simp add: nextItem_def Cons p1_def)
    have c1: "currentTune p1 \<noteq> None"
      using "1.prems" by (simp add: p1_def)
    obtain r p2 where h: "handleItem it p1 = (r, p2)"
      by (cases "handleItem it p1")
    have k: "r \<noteq> Some NilDereference \<and> currentTune p2 \<noteq> None"
      using no_panic_with_tune [OF c1, of it] h c1
      by (auto simp: handleItem_def split: if_splits)
    show ?thesis
    proof (cases r)
      case None
      then have "parseLoop p2 \<noteq> Inl NilDereference"
        using "1.IH" [OF n [symmetric] refl h [symmetric]] k by simp
      with n h None show ?thesis
        by (simp add: parseLoop.simps [of p])
    next
      case (Some e)
      with n h k show ?thesis
        by (simp add: parseLoop.simps [of p])
    qed
  qed
qed


lemma meterNumerator_divide:
  "meterNumerator xs acc = (Inr num, rest) \<Longrightarrow> rest \<noteq> [] \<Longrightarrow>
     \<exists>pre dv. xs = pre @ dv # rest \<and> itemTyp dv = itemDivide \<and>
       (\<forall>it \<in> set pre. itemTyp it = itemNumber \<or> itemTyp it = itemPlus)"
proof (induction xs arbitrary: acc)
  case Nil
  then show ?case by simp
next
  case (Cons x xs)
  show ?case
  proof (cases "itemTyp x = itemDivide")
    case True
    with Cons.prems have "rest = xs"
      by simp
    with True show ?thesis
      by (intro exI [of _ "[]"] exI [of _ x]) simp
  next
    case False
    then consider (number) "itemTyp x = itemNumber" | (plus) "itemTyp x = itemPlus"
      using Cons.prems by (auto split: if_splits)
    then obtain acc' where "meterNumerator xs acc' = (Inr num, rest)"
      using Cons.prems False by cases auto
    then obtain pre dv where "xs = pre @ dv # rest" "itemTyp dv = itemDivide"
      "\<forall>it \<in> set pre. itemTyp it = itemNumber \<or> itemTyp it = itemPlus"
      using Cons.IH Cons.prems(2) by blast
    moreover have "itemTyp x = itemNumber \<or> itemTyp x = itemPlus"
      using False Cons.prems by (auto split: if_splits)
    ultimately show ?thesis
      by (intro exI [of _ "x # pre"] exI [of _ dv]) simp
  qed
qed

lemma meterItems_iff:
  "meterItems xs \<longleftrightarrow>
     (\<exists>pre dv den rest. xs = pre @ dv # den # rest \<and>
        (\<forall>it \<in> set pre. itemTyp it = itemNumber \<or> itemTyp it = itemPlus) \<and>
        itemTyp dv = itemDivide \<and> itemTyp den = itemNumber)"
proof
  assume "meterItems xs"
  then obtain num rest where m: "meterNumerator xs [] = (Inr num, rest)"
    and r: "rest \<noteq> []" "itemTyp (hd rest) = itemNumber"
    by (auto simp: meterItems_def split: prod.splits sum.splits)
  from meterNumerator_divide [OF m r(1)] obtain pre dv where
    "xs = pre @ dv # rest" "itemTyp dv = itemDivide"
    "\<forall>it \<in> set pre. itemTyp it = itemNumber \<or> itemTyp it = itemPlus"
    by blast
  with r show "\<exists>pre dv den rest. xs = pre @ dv # den # rest \<and>
        (\<forall>it \<in> set pre. itemTyp it = itemNumber \<or> itemTyp it = itemPlus) \<and>
        itemTyp dv = itemDivide \<and> itemTyp den = itemNumber"
    by (cases rest) auto
next
  assume "\<exists>pre dv den rest. xs = pre @ dv # den # rest \<and>
        (\<forall>it \<in> set pre. itemTyp it = itemNumber \<or> itemTyp it = itemPlus) \<and>
        itemTyp dv = itemDivide \<and> itemTyp den = itemNumber"
  then obtain pre dv den rest where x: "xs = pre @ dv # den # rest"
    and p: "\<forall>it \<in> set pre. itemTyp it = itemNumber \<or> itemTyp it = itemPlus"
    and d: "itemTyp dv = itemDivide" "itemTyp den = itemNumber"
    by blast
  show "meterItems xs"
    using meterNumerator_run [OF p d(1), of "den # rest" "[]"] d(2)
    by (simp add: meterItems_def x)
qed


lemma handleFieldName_string:
  "itemVal it \<in> set stringFields \<Longrightarrow> \<exists>upd. handleFieldName it p = setStringField upd p"
  by (auto simp: stringFields_def handleFieldName_def Let_def header_defs)

lemma handleFieldName_list:
  "itemVal it \<in> set listFields \<Longrightarrow> \<exists>upd. handleFieldName it p = addToList upd p"
  by (auto simp: listFields_def handleFieldName_def Let_def header_defs addNotes_def
        addHistory_def addWordsAfterTune_def)

lemma handleFieldName_discarded:
  "itemVal it \<in> set discardedFields \<Longrightarrow> handleFieldName it p = consumeToNewline p"
  by (auto simp: discardedFields_def handleFieldName_def Let_def header_defs)

lemma handleFieldName_M: "itemVal it = [headerM] \<Longrightarrow> handleFieldName it p = setMeter p"
  by (simp add: handleFieldName_def Let_def header_defs)

lemma handleFieldName_L: "itemVal it = [headerL] \<Longrightarrow> handleFieldName it p = setNoteLength p"
  by (simp add: handleFieldName_def Let_def header_defs)

lemma handleFieldName_X: "itemVal it = [headerX] \<Longrightarrow> handleFieldName it p = setSequence p"
  by (simp add: handleFieldName_def Let_def header_defs)

text \<open>
  Claim C10 says that a handled field other than X that comes before the first X field
  always ends in the dereference of the \<open>nil\<close> pointer and never in an error. That holds
  for the simple string fields only. Claim C10, as amended: with no current tune,
  (1) the handler of a simple string field (A, B, C, D, F, G, O, R, S, T, Z) ends in the
  dereference, whatever the items are;
  (2) the handler of a list field (H, N, W) ends in the dereference when the next item is
  a string, and otherwise returns the error of \<open>expect\<close> for a string;
  (3) the handler of M ends in the dereference exactly when the items it expects before
  the assignment are there; otherwise it returns an error: after the number and plus
  items at the front, \<open>expected number or plus\<close> for the next item when that is no
  divide, and the error of \<open>expect\<close> for a number when no item is left or the divide is
  not followed by a number;
  (4) the handler of L ends in the dereference exactly when the next three items are a
  number, a divide and a number; otherwise it returns the error of \<open>expect\<close> for the
  first of the three that is missing or of another type;
  (5) a discarded field (I, K, m, P, Q, r, s, U, V, w) returns no error, and (6) X never
  ends in the dereference.
  With a current tune no handler ends in the dereference and neither does \<open>parse\<close>:
  once an X field has been handled, the pointer is never \<open>nil\<close> again.
\<close>

theorem C10_nil_dereference_amended:
  "(currentTune p = None \<longrightarrow>
      (itemVal it \<in> set stringFields \<longrightarrow> fst (handleFieldName it p) = Some NilDereference) \<and>
      (itemVal it \<in> set listFields \<longrightarrow>
         fst (handleFieldName it p) =
           (if lexer p \<noteq> [] \<and> itemTyp (hd (lexer p)) = itemString then Some NilDereference
            else Some (ExpectedOneOf [itemString]))) \<and>
      (itemVal it = [headerM] \<longrightarrow>
         (fst (handleFieldName it p) = Some NilDereference) = meterItems (lexer p) \<and>
         fst (handleFieldName it p) =
           (case dropWhile (\<lambda>x. itemTyp x = itemNumber \<or> itemTyp x = itemPlus) (lexer p) of
              [] \<Rightarrow> Some (ExpectedOneOf [itemNumber])
            | y # ys \<Rightarrow>
                if itemTyp y \<noteq> itemDivide then Some (ExpectedNumberOrPlus y)
                else if ys \<noteq> [] \<and> itemTyp (hd ys) = itemNumber then Some NilDereference
                else Some (ExpectedOneOf [itemNumber]))) \<and>
      (itemVal it = [headerL] \<longrightarrow>
         (fst (handleFieldName it p) = Some NilDereference) = noteLengthItems (lexer p) \<and>
         fst (handleFieldName it p) =
           (if lexer p = [] \<or> itemTyp (lexer p ! 0) \<noteq> itemNumber
            then Some (ExpectedOneOf [itemNumber])
            else if length (lexer p) < 2 \<or> itemTyp (lexer p ! 1) \<noteq> itemDivide
            then Some (ExpectedOneOf [itemDivide])
            else if length (lexer p) < 3 \<or> itemTyp (lexer p ! 2) \<noteq> itemNumber
            then Some (ExpectedOneOf [itemNumber])
            else Some NilDereference)) \<and>
      (itemVal it \<in> set discardedFields \<longrightarrow> fst (handleFieldName it p) = None) \<and>
      (itemVal it = [headerX] \<longrightarrow> fst (handleFieldName it p) \<noteq> Some NilDereference)) \<and>
   (currentTune p \<noteq> None \<longrightarrow>
      fst (handleFieldName it p) \<noteq> Some NilDereference \<and> parse p \<noteq> Inl NilDereference)"
proof (intro conjI impI)
  assume "currentTune p = None" "itemVal it \<in> set stringFields"
  then show "fst (handleFieldName it p) = Some NilDereference"
    using handleFieldName_string [of it p] setStringField_nil [of p] by auto
next
  assume "currentTune p = None" "itemVal it \<in> set listFields"
  then show "fst (handleFieldName it p) =
           (if lexer p \<noteq> [] \<and> itemTyp (hd (lexer p)) = itemString then Some NilDereference
            else Some (ExpectedOneOf [itemString]))"
    using handleFieldName_list [of it p] addToList_nil [of p] by auto
next
  assume "currentTune p = None" "itemVal it = [headerM]"
  then show "(fst (handleFieldName it p) = Some NilDereference) = meterItems (lexer p)"
    using setMeter_nil [of p] by (simp add: handleFieldName_M)
next
  assume "currentTune p = None" "itemVal it = [headerM]"
  then show "fst (handleFieldName it p) =
           (case dropWhile (\<lambda>x. itemTyp x = itemNumber \<or> itemTyp x = itemPlus) (lexer p) of
              [] \<Rightarrow> Some (ExpectedOneOf [itemNumber])
            | y # ys \<Rightarrow>
                if itemTyp y \<noteq> itemDivide then Some (ExpectedNumberOrPlus y)
                else if ys \<noteq> [] \<and> itemTyp (hd ys) = itemNumber then Some NilDereference
                else Some (ExpectedOneOf [itemNumber]))"
    using setMeter_nil_result [of p] by (simp only: handleFieldName_M)
next
  assume "currentTune p = None" "itemVal it = [headerL]"
  then show "(fst (handleFieldName it p) = Some NilDereference) = noteLengthItems (lexer p)"
    using setNoteLength_nil [of p] by (simp add: handleFieldName_L)
next
  assume "currentTune p = None" "itemVal it = [headerL]"
  then show "fst (handleFieldName it p) =
           (if lexer p = [] \<or> itemTyp (lexer p ! 0) \<noteq> itemNumber
            then Some (ExpectedOneOf [itemNumber])
            else if length (lexer p) < 2 \<or> itemTyp (lexer p ! 1) \<noteq> itemDivide
            then Some (ExpectedOneOf [itemDivide])
            else if length (lexer p) < 3 \<or> itemTyp (lexer p ! 2) \<noteq> itemNumber
            then Some (ExpectedOneOf [itemNumber])
            else Some NilDereference)"
    using setNoteLength_nil_result [of p] by (simp only: handleFieldName_L)
next
  assume "currentTune p = None" "itemVal it \<in> set discardedFields"
  then show "fst (handleFieldName it p) = None"
    by (simp add: handleFieldName_discarded consumeToNewline_def)
next
  assume "currentTune p = None" "itemVal it = [headerX]"
  then show "fst (handleFieldName it p) \<noteq> Some NilDereference"
    using setSequence_with_tune [of p] by (simp add: handleFieldName_X)
next
  assume "currentTune p \<noteq> None"
  then show "fst (handleFieldName it p) \<noteq> Some NilDereference"
    using no_panic_with_tune by blast
next
  assume "currentTune p \<noteq> None"
  then have "parseLoop p \<noteq> Inl NilDereference"
    by (rule parseLoop_no_panic)
  then show "parse p \<noteq> Inl NilDereference"
    by (auto simp: parse_def split: sum.splits option.splits)
qed

text \<open>
  A meter field with no item but a newline, before any X field: the parser returns the
  error of \<open>setMeter\<close>, and nothing is dereferenced.
\<close>

definition meterFirst :: parser where
  "meterFirst =
     \<lparr>lexer = [tok itemFieldName ''M'', tok itemNewline [CHR 0x0A]], tunes = [],
      currentTune = None\<rparr>"

theorem C10_counterexample:
  "parse meterFirst = Inl (ExpectedNumberOrPlus (tok itemNewline [CHR 0x0A]))"
  by (simp add: meterFirst_def tok_def parse_eval scan_eval parseLoop.simps
        split del: if_split)

text \<open>A title field before any X field, and the same field after one.\<close>

definition titleFirst :: parser where
  "titleFirst =
     \<lparr>lexer = [tok itemString ''Reel'', tok itemNewline [CHR 0x0A]], tunes = [],
      currentTune = None\<rparr>"

theorem C10_witness:
  "fst (handleFieldName (tok itemFieldName ''T'') titleFirst) = Some NilDereference \<and>
   fst (handleFieldName (tok itemFieldName ''H'') titleFirst) = Some NilDereference \<and>
   \<not> meterItems (lexer titleFirst) \<and>
   fst (handleFieldName (tok itemFieldName ''M'') titleFirst) =
     Some (ExpectedNumberOrPlus (tok itemString ''Reel'')) \<and>
   \<not> noteLengthItems (lexer titleFirst) \<and>
   fst (handleFieldName (tok itemFieldName ''L'') titleFirst) =
     Some (ExpectedOneOf [itemNumber]) \<and>
   fst (handleFieldName (tok itemFieldName ''K'') titleFirst) = None \<and>
   fst (handleFieldName (tok itemFieldName ''X'') titleFirst) \<noteq> Some NilDereference \<and>
   fst (handleFieldName (tok itemFieldName ''T'') (titleFirst\<lparr>currentTune := Some zeroTune\<rparr>))
     \<noteq> Some NilDereference \<and>
   parse (titleFirst\<lparr>currentTune := Some zeroTune\<rparr>) \<noteq> Inl NilDereference"
proof -
  have n: "currentTune titleFirst = None"
    and s: "currentTune (titleFirst\<lparr>currentTune := Some zeroTune\<rparr>) \<noteq> None"
    and l: "lexer titleFirst \<noteq> [] \<and> itemTyp (hd (lexer titleFirst)) = itemString"
    by (simp_all add: titleFirst_def tok_def)
  have v: "itemVal (tok itemFieldName ''T'') \<in> set stringFields"
    "itemVal (tok itemFieldName ''H'') \<in> set listFields"
    "itemVal (tok itemFieldName ''M'') = [headerM]"
    "itemVal (tok itemFieldName ''L'') = [headerL]"
    "itemVal (tok itemFieldName ''K'') \<in> set discardedFields"
    "itemVal (tok itemFieldName ''X'') = [headerX]"
    by (simp_all add: tok_def stringFields_def listFields_def discardedFields_def header_defs)
  have m: "\<not> meterItems (lexer titleFirst)" "\<not> noteLengthItems (lexer titleFirst)"
    by (simp_all add: titleFirst_def tok_def meterItems_def noteLengthItems_def)
  have d: "dropWhile (\<lambda>x. itemTyp x = itemNumber \<or> itemTyp x = itemPlus) (lexer titleFirst) =
             [tok itemString ''Reel'', tok itemNewline [CHR 0x0A]]"
    "itemTyp (tok itemString ''Reel'') \<noteq> itemDivide"
    "itemTyp (lexer titleFirst ! 0) \<noteq> itemNumber"
    by (simp_all add: titleFirst_def tok_def)
  from C10_nil_dereference_amended [of titleFirst "tok itemFieldName ''T''"]
    C10_nil_dereference_amended [of titleFirst "tok itemFieldName ''H''"]
    C10_nil_dereference_amended [of titleFirst "tok itemFieldName ''M''"]
    C10_nil_dereference_amended [of titleFirst "tok itemFieldName ''L''"]
    C10_nil_dereference_amended [of titleFirst "tok itemFieldName ''K''"]
    C10_nil_dereference_amended [of titleFirst "tok itemFieldName ''X''"]
    C10_nil_dereference_amended [of "titleFirst\<lparr>currentTune := Some zeroTune\<rparr>"
      "tok itemFieldName ''T''"]
    n s l v m d
  show ?thesis
    by simp
qed


section \<open>Claim C7: a field that has no handler\<close>







lemma runeOf_eq_iff: "runeOf c = runeOf d \<longleftrightarrow> c = d"
  by (simp add: runeOf_def)
























section \<open>Decoding and peeking\<close>

text \<open>
  Facts about \<open>utf8.DecodeRuneInString\<close> and \<open>peek\<close> for the claims on the scanner. The
  value of a two-byte, three-byte or four-byte encoding is at least 128.
\<close>

lemma mod_range:
  assumes "q * m \<le> b" and "b < q * m + m"
  shows "(b :: nat) mod m = b - q * m"
proof -
  define k where "k = b - q * m"
  have "b = q * m + k" and "k < m"
    using assms by (simp_all add: k_def)
  then show ?thesis
    by simp
qed

lemma two_byte_rune:
  assumes "194 \<le> b0" and "b0 < 224"
  shows "128 \<le> (b0 mod 32) * 64 + (b1 :: nat) mod 64"
proof -
  have "b0 mod 32 = b0 - 192"
    using mod_range [of 6 32 b0] assms by simp
  then show ?thesis
    using assms by simp
qed

lemma three_byte_rune:
  assumes "224 \<le> b0" and "b0 < 240" and "acceptLo b0 \<le> b1" and "b1 \<le> acceptHi b0"
  shows "128 \<le> (b0 mod 16) * 4096 + (b1 mod 64) * 64 + (b2 :: nat) mod 64"
proof (cases "b0 = 224")
  case True
  then have "160 \<le> b1" "b1 \<le> 191"
    using assms by (simp_all add: acceptLo_def acceptHi_def)
  then have "b1 mod 64 = b1 - 128"
    using mod_range [of 2 64 b1] by simp
  with \<open>160 \<le> b1\<close> show ?thesis
    by simp
next
  case False
  have "b0 mod 16 = b0 - 224"
    using mod_range [of 14 16 b0] assms by simp
  with False assms show ?thesis
    by simp
qed

lemma four_byte_rune:
  assumes "240 \<le> b0" and "b0 \<le> 244" and "acceptLo b0 \<le> b1" and "b1 \<le> acceptHi b0"
  shows "128 \<le> (b0 mod 8) * 262144 + (b1 mod 64) * 4096 + (b2 mod 64) * 64 + (b3 :: nat) mod 64"
proof (cases "b0 = 240")
  case True
  then have "144 \<le> b1" "b1 \<le> 191"
    using assms by (simp_all add: acceptLo_def acceptHi_def)
  then have "b1 mod 64 = b1 - 128"
    using mod_range [of 2 64 b1] by simp
  with \<open>144 \<le> b1\<close> show ?thesis
    by simp
next
  case False
  have "b0 mod 8 = b0 - 240"
    using mod_range [of 30 8 b0] assms by simp
  with False assms show ?thesis
    by simp
qed

text \<open>A rune below 128 is decoded from a byte below 128 only, and is that byte.\<close>

lemma byteAt_0: "byteAt (c # cs) 0 = of_char c"
  by (simp add: byteAt_def)

lemma DecodeRuneInString_low:
  "(of_char c :: nat) < 128 \<Longrightarrow> DecodeRuneInString (c # cs) = (runeOf c, 1)"
  by (simp add: DecodeRuneInString_def byteAt_0 runeOf_def)

lemma DecodeRuneInString_high:
  assumes "\<not> (of_char c :: nat) < 128"
  shows "128 \<le> fst (DecodeRuneInString (c # cs))"
proof -
  define b0 where "b0 = (of_char c :: nat)"
  define b1 where "b1 = byteAt (c # cs) 1"
  define b2 where "b2 = byteAt (c # cs) 2"
  define b3 where "b3 = byteAt (c # cs) 3"
  have h: "\<not> b0 < 128"
    using assms by (simp add: b0_def)
  have 2: "194 \<le> b0 \<Longrightarrow> b0 < 224 \<Longrightarrow> (128 :: int) \<le> int ((b0 mod 32) * 64 + b1 mod 64)"
    using two_byte_rune [of b0 b1] by linarith
  have 3: "224 \<le> b0 \<Longrightarrow> b0 < 240 \<Longrightarrow> acceptLo b0 \<le> b1 \<Longrightarrow> b1 \<le> acceptHi b0 \<Longrightarrow>
     (128 :: int) \<le> int ((b0 mod 16) * 4096 + (b1 mod 64) * 64 + b2 mod 64)"
    using three_byte_rune [of b0 b1 b2] by linarith
  have 4: "240 \<le> b0 \<Longrightarrow> b0 \<le> 244 \<Longrightarrow> acceptLo b0 \<le> b1 \<Longrightarrow> b1 \<le> acceptHi b0 \<Longrightarrow>
     (128 :: int) \<le> int ((b0 mod 8) * 262144 + (b1 mod 64) * 4096 + (b2 mod 64) * 64 + b3 mod 64)"
    using four_byte_rune [of b0 b1 b2 b3] by linarith
  have l: "\<not> length (c # cs) < 1"
    by simp
  have d: "DecodeRuneInString (c # cs) =
     (if b0 < 194 \<or> 244 < b0 then (RuneError, 1)
         else
           (let sz = (if b0 < 224 then 2 else if b0 < 240 then 3 else (4::nat))
            in if length (c # cs) < sz then (RuneError, 1)
               else if b1 < acceptLo b0 \<or> acceptHi b0 < b1 then (RuneError, 1)
               else if sz \<le> 2 then (int ((b0 mod 32) * 64 + b1 mod 64), 2)
               else if \<not> contByte b2 then (RuneError, 1)
               else if sz \<le> 3
               then (int ((b0 mod 16) * 4096 + (b1 mod 64) * 64 + b2 mod 64), 3)
               else if \<not> contByte b3 then (RuneError, 1)
               else (int ((b0 mod 8) * 262144 + (b1 mod 64) * 4096
                          + (b2 mod 64) * 64 + b3 mod 64), 4)))"
    unfolding DecodeRuneInString_def Let_def byteAt_0 b0_def [symmetric] b1_def [symmetric]
      b2_def [symmetric] b3_def [symmetric] if_not_P [OF l] if_not_P [OF h]
    by (rule refl)
  consider (bad) "b0 < 194 \<or> 244 < b0" | (two) "194 \<le> b0" "b0 < 224"
    | (three) "224 \<le> b0" "b0 < 240" | (four) "240 \<le> b0" "b0 \<le> 244"
    by linarith
  then show ?thesis
  proof cases
    case bad
    then show ?thesis
      by (simp add: d RuneError_def)
  next
    case two
    then have "DecodeRuneInString (c # cs) =
        (if length (c # cs) < 2 then (RuneError, 1)
         else if b1 < acceptLo b0 \<or> acceptHi b0 < b1 then (RuneError, 1)
         else (int ((b0 mod 32) * 64 + b1 mod 64), 2))"
      by (simp add: d del: of_nat_add of_nat_mult)
    then show ?thesis
      using 2 [OF two] by (simp add: RuneError_def del: of_nat_add of_nat_mult)
  next
    case three
    then have "DecodeRuneInString (c # cs) =
        (if length (c # cs) < 3 then (RuneError, 1)
         else if b1 < acceptLo b0 \<or> acceptHi b0 < b1 then (RuneError, 1)
         else if \<not> contByte b2 then (RuneError, 1)
         else (int ((b0 mod 16) * 4096 + (b1 mod 64) * 64 + b2 mod 64), 3))"
      by (simp add: d del: of_nat_add of_nat_mult)
    then show ?thesis
      using 3 [OF three] by (simp add: RuneError_def del: of_nat_add of_nat_mult)
  next
    case four
    then have "DecodeRuneInString (c # cs) =
        (if length (c # cs) < 4 then (RuneError, 1)
         else if b1 < acceptLo b0 \<or> acceptHi b0 < b1 then (RuneError, 1)
         else if \<not> contByte b2 then (RuneError, 1)
         else if \<not> contByte b3 then (RuneError, 1)
         else (int ((b0 mod 8) * 262144 + (b1 mod 64) * 4096
                          + (b2 mod 64) * 64 + b3 mod 64), 4))"
      by (simp add: d del: of_nat_add of_nat_mult)
    then show ?thesis
      using 4 [OF four] by (simp add: RuneError_def del: of_nat_add of_nat_mult)
  qed
qed

lemma DecodeRuneInString_ascii:
  assumes "fst (DecodeRuneInString s) < 128"
  shows "s \<noteq> [] \<and> (of_char (hd s) :: nat) < 128 \<and> DecodeRuneInString s = (runeOf (hd s), 1)"
proof (cases s)
  case Nil
  with assms show ?thesis
    by (simp add: DecodeRuneInString_def RuneError_def)
next
  case (Cons c cs)
  then have "(of_char c :: nat) < 128"
    using assms DecodeRuneInString_high [of c cs] by fastforce
  then show ?thesis
    using Cons DecodeRuneInString_low [of c cs] by simp
qed


text \<open>
  \<open>peek\<close> changes the width only: \<open>backup\<close> undoes the step and the line count of
  \<open>next\<close>.
\<close>

lemma byteAt_drop: "p < length s \<Longrightarrow> byteAt s p = of_char (hd (drop p s))"
  by (cases "drop p s") (simp_all add: byteAt_def)

lemma peek_eq:
  "peek l =
     (if length (input l) \<le> pos l then (eof, l\<lparr>width := 0\<rparr>)
      else (fst (DecodeRuneInString (drop (pos l) (input l))),
            l\<lparr>width := snd (DecodeRuneInString (drop (pos l) (input l)))\<rparr>))"
proof (cases "length (input l) \<le> pos l")
  case True
  then show ?thesis
    by (simp add: peek_def lnext_def backup_def)
next
  case False
  define s where "s = drop (pos l) (input l)"
  obtain r w where d: "DecodeRuneInString s = (r, w)"
    by (cases "DecodeRuneInString s")
  have ne: "s \<noteq> []"
    using False by (simp add: s_def)
  have b: "byteAt (input l) (pos l) = of_char (hd s)"
    using False by (simp add: byteAt_drop s_def)
  show ?thesis
  proof (cases "r = 10")
    case True
    then have "DecodeRuneInString s = (runeOf (hd s), 1)"
      using DecodeRuneInString_ascii [of s] d by simp
    with d True have "w = 1" "(of_char (hd s) :: nat) = 10"
      by (simp_all add: runeOf_def)
    with False d True b show ?thesis
      by (simp add: peek_def lnext_def backup_def s_def [symmetric])
  next
    case r: False
    have "\<not> (w = 1 \<and> (of_char (hd s) :: nat) = 10)"
    proof
      assume a: "w = 1 \<and> (of_char (hd s) :: nat) = 10"
      then have "DecodeRuneInString s = (runeOf (hd s), 1)"
        using DecodeRuneInString_low [of "hd s" "tl s"] ne by simp
      with d a r show False
        by (simp add: runeOf_def)
    qed
    with False d r b show ?thesis
      by (auto simp: peek_def lnext_def backup_def s_def [symmetric])
  qed
qed

lemma peek_same: "peek l = (r, l1) \<Longrightarrow> pos l1 = pos l \<and> input l1 = input l"
  by (auto simp: peek_eq split: if_splits)

lemma peek_ascii:
  assumes "peek l = (r, l1)" and "0 \<le> r" and "r < 128"
  shows "pos l < length (input l) \<and> r = runeOf (input l ! pos l)"
proof -
  have p: "pos l < length (input l)"
    using assms by (auto simp: peek_eq eof_def split: if_splits)
  then have "r = fst (DecodeRuneInString (drop (pos l) (input l)))"
    using assms(1) by (simp add: peek_eq)
  then have "r = runeOf (hd (drop (pos l) (input l)))"
    using DecodeRuneInString_ascii [of "drop (pos l) (input l)"] assms(3) by simp
  with p show ?thesis
    by (simp add: hd_drop_conv_nth)
qed

text \<open>
  When \<open>scanToQuote\<close> returns, a double quote stands at or after the position: with no
  double quote left in the input the loop does not return.
\<close>

lemma scanToQuote_Some:
  assumes "scanToQuote l = Some l'"
  shows "CHR 0x22 \<in> set (drop (pos l) (input l))"
proof (rule scanToQuote.raw_induct
         [where P = "\<lambda>l l'. CHR 0x22 \<in> set (drop (pos l) (input l))", OF _ assms],
       goal_cases)
  case (1 scan l l')
  obtain r l1 where p: "peek l = (r, l1)"
    by (cases "peek l")
  show ?case
  proof (cases "r = runeOf (CHR 0x22)")
    case True
    then have "pos l < length (input l) \<and> r = runeOf (input l ! pos l)"
      using peek_ascii [OF p] by (simp add: runeOf_def)
    with True have "pos l < length (input l)" "input l ! pos l = CHR 0x22"
      by (simp_all add: runeOf_eq_iff)
    then show ?thesis
      by (metis in_set_conv_nth Cons_nth_drop_Suc list.set_intros(1))
  next
    case False
    with 1(2) p have "scan (l1\<lparr>pos := pos l1 + 1\<rparr>) = Some l'"
      by simp
    then have "CHR 0x22 \<in> set (drop (pos l1 + 1) (input l1))"
      using 1(1) by fastforce
    then have "CHR 0x22 \<in> set (drop (Suc (pos l)) (input l))"
      using peek_same [OF p] by simp
    then show ?thesis
      using set_drop_subset_set_drop [of "pos l" "Suc (pos l)" "input l"] by auto
  qed
qed

lemma scanToQuote_None:
  "CHR 0x22 \<notin> set (drop (pos l) (input l)) \<Longrightarrow> scanToQuote l = None"
  using scanToQuote_Some [of l] by (cases "scanToQuote l") auto


section \<open>Claim C3: a scan error at the top level\<close>

text \<open>The input: a tune header and then a character that the scanner does not know.\<close>

definition strayCharacter :: string where
  "strayCharacter = ''X:1'' @ [CHR 0x0A] @ ''#''"

text \<open>
  Claim C3 says that \<open>Read\<close> returns an error whenever the scanner halts with an error
  item. On this input the scanner halts with the error item for the character \<open>#\<close>,
  and \<open>Read\<close> returns the tune read so far and no error: \<open>handleItem\<close> acts on
  field-name items only, so the error item is passed over.
\<close>

theorem C3_scan_error_is_ignored:
  "map_option (map itemTyp) (lex U strayCharacter) =
     Some [itemFieldName, itemNumber, itemNewline, itemError] \<and>
   Read U strayCharacter = Some (Inr [zeroTune\<lparr>Sequence := 1\<rparr>])"
  by (simp add: strayCharacter_def scan_eval scan_loops parse_eval parseLoop.simps
        split del: if_split)

section \<open>Claim C4: the end of the scan\<close>

text \<open>
  The inputs: a chord that is opened and never closed, and a sequence-number field
  followed by a letter.
\<close>

definition unclosedChord :: string where
  "unclosedChord = [CHR 0x22, CHR ''A'', CHR ''m'']"

definition numberThenLetter :: string where
  "numberThenLetter = ''X:1x''"

text \<open>
  Claim C4 says that the scanner sends a terminal item after finitely many items on every
  input, also when a chord has no closing quote, and sends nothing after it. On the
  unclosed chord the loop of \<open>lexChord\<close> steps past the end of the input and the scan
  never ends: no item is sent at all. (The position is unbounded in the model. In Go it
  is a 64-bit integer: the loop runs until the position wraps around, and then the slice
  expression of \<open>next\<close> panics. No terminal item is sent either way.) On the other input the error item of
  \<open>acceptNewline\<close> is followed by one more item, because the \<open>nil\<close> state that \<open>errorf\<close>
  returns is dropped.
\<close>

theorem C4_unclosed_chord_never_ends:
  "lex U unclosedChord = None \<and>
   map_option (map itemTyp) (lex U numberThenLetter) =
     Some [itemFieldName, itemNumber, itemError, itemEOF]"
proof
  show "lex U unclosedChord = None"
    by (simp add: unclosedChord_def scan_eval run.simps scanToQuote_None split del: if_split)
  show "map_option (map itemTyp) (lex U numberThenLetter) =
     Some [itemFieldName, itemNumber, itemError, itemEOF]"
    by (simp add: numberThenLetter_def scan_eval scan_loops split del: if_split)
qed

section \<open>Claim C5: compound barlines\<close>

text \<open>
  Claim C5 says that a compound marker at the current position is recognised before the
  single characters and sent as one item whose text is the marker. The source tests
  \<^verbatim>\<open>l.input[l.pos+1:]\<close>, the text one character after the position, where \<open>lexLine\<close>
  tests for the colon of a header line: so \<open>||\<close> at the position is sent as two barline
  items, and \<open>||\<close> after a letter is sent as one double-barline item whose text is the
  letter and the first bar.
\<close>

theorem C5_marker_is_tested_one_character_late:
  "lex U ''||ab'' =
     Some [\<lparr>itemTyp = itemBarline, itemPos = 0, itemVal = ''|'', itemLine = 1\<rparr>,
           \<lparr>itemTyp = itemBarline, itemPos = 1, itemVal = ''|'', itemLine = 1\<rparr>,
           \<lparr>itemTyp = itemLetter, itemPos = 2, itemVal = ''a'', itemLine = 1\<rparr>,
           \<lparr>itemTyp = itemLetter, itemPos = 3, itemVal = ''b'', itemLine = 1\<rparr>,
           \<lparr>itemTyp = itemEOF, itemPos = 4, itemVal = [], itemLine = 1\<rparr>] \<and>
   lex U ''a||b'' =
     Some [\<lparr>itemTyp = itemThinThinDoubleBarLine, itemPos = 0, itemVal = ''a|'', itemLine = 1\<rparr>,
           \<lparr>itemTyp = itemBarline, itemPos = 2, itemVal = ''|'', itemLine = 1\<rparr>,
           \<lparr>itemTyp = itemLetter, itemPos = 3, itemVal = ''b'', itemLine = 1\<rparr>,
           \<lparr>itemTyp = itemEOF, itemPos = 4, itemVal = [], itemLine = 1\<rparr>]"
  by (simp add: scan_eval scan_loops split del: if_split)

section \<open>Claim C8: a comment line\<close>

lemma not_end_of_line:
  assumes "peek l = (r, l1)" and "isEndOfLine r"
  shows "pos l < length (input l) \<and> (input l ! pos l = CHR 0x0D \<or> input l ! pos l = CHR 0x0A)"
proof -
  have "0 \<le> r" "r < 128"
    using assms(2) by (auto simp: isEndOfLine_def)
  then have p: "pos l < length (input l)" and r: "r = runeOf (input l ! pos l)"
    using peek_ascii [OF assms(1)] by simp_all
  have "runeOf (CHR 0x0D) = 13" "runeOf (CHR 0x0A) = 10"
    by (simp_all add: runeOf_def)
  then have "input l ! pos l = CHR 0x0D \<or> input l ! pos l = CHR 0x0A"
    using assms(2) r runeOf_eq_iff by (metis isEndOfLine_def)
  with p show ?thesis
    by simp
qed

lemma DecodeRuneInString_nonneg: "0 \<le> fst (DecodeRuneInString s)"
proof (cases "fst (DecodeRuneInString s) < 128")
  case True
  then show ?thesis
    using DecodeRuneInString_ascii [of s] by (simp add: runeOf_def)
next
  case False
  then show ?thesis
    by simp
qed

lemma peek_eof:
  "peek l = (r, l1) \<Longrightarrow> r = eof \<longleftrightarrow> length (input l) \<le> pos l"
  using DecodeRuneInString_nonneg [of "drop (pos l) (input l)"]
  by (auto simp: peek_eq eof_def split: if_splits)

lemma consumeToEndOfLine_run:
  assumes "\<forall>c \<in> set (drop (pos l) (input l)). c \<noteq> CHR 0x0A \<and> c \<noteq> CHR 0x0D"
    and "pos l \<le> length (input l)"
  shows "consumeToEndOfLine l = l\<lparr>pos := length (input l), width := 0\<rparr>"
  using assms
proof (induction l rule: consumeToEndOfLine.induct)
  case (1 l)
  obtain r l1 where p: "peek l = (r, l1)"
    by (cases "peek l")
  have n: "\<not> isEndOfLine r"
  proof
    assume "isEndOfLine r"
    then have "pos l < length (input l) \<and>
        (input l ! pos l = CHR 0x0D \<or> input l ! pos l = CHR 0x0A)"
      using not_end_of_line [OF p] by simp
    moreover then have "input l ! pos l \<in> set (drop (pos l) (input l))"
      by (metis Cons_nth_drop_Suc list.set_intros(1))
    ultimately show False
      using "1.prems"(1) by auto
  qed
  show ?case
  proof (cases "r = eof")
    case True
    then have e: "length (input l) \<le> pos l"
      using peek_eof [OF p] by simp
    then have "l1 = l\<lparr>width := 0\<rparr>"
      using p by (simp add: peek_eq)
    with p True e "1.prems"(2) show ?thesis
      by (simp add: consumeToEndOfLine.simps [of l] del: consumeToEndOfLine.simps)
  next
    case False
    then have lt: "pos l < length (input l)" and l1: "pos l1 = pos l" "input l1 = input l"
      using peek_pos [OF p] by simp_all
    have w: "l1 = l\<lparr>width := width l1\<rparr>"
      using p by (auto simp: peek_eq split: if_splits)
    have "\<forall>c \<in> set (drop (pos (l1\<lparr>pos := pos l1 + 1\<rparr>)) (input (l1\<lparr>pos := pos l1 + 1\<rparr>))).
            c \<noteq> CHR 0x0A \<and> c \<noteq> CHR 0x0D"
      using "1.prems"(1) l1 set_drop_subset_set_drop [of "pos l" "Suc (pos l)" "input l"]
      by auto
    moreover have "pos (l1\<lparr>pos := pos l1 + 1\<rparr>) \<le> length (input (l1\<lparr>pos := pos l1 + 1\<rparr>))"
      using lt l1 by simp
    ultimately have "consumeToEndOfLine (l1\<lparr>pos := pos l1 + 1\<rparr>) =
        l1\<lparr>pos := pos l1 + 1\<rparr>\<lparr>pos := length (input (l1\<lparr>pos := pos l1 + 1\<rparr>)), width := 0\<rparr>"
      using "1.IH" [OF p [symmetric]] n False by simp
    then have "consumeToEndOfLine (l1\<lparr>pos := pos l1 + 1\<rparr>) =
        l\<lparr>pos := length (input l), width := 0\<rparr>"
      using l1 by (subst (asm) w) simp
    with p n False show ?thesis
      by (simp add: consumeToEndOfLine.simps [of l] del: consumeToEndOfLine.simps)
  qed
qed


text \<open>
  Claim C8 says that every input that is one comment line, the character \<open>%\<close> and a
  text, is scanned as a percent item, a comment item and the end-of-input item. On the
  input \<open>%:x\<close> the second character is a colon, so \<open>lexLine\<close> takes the line for a
  header line, and the scanner sends a field-name item and an error item.
\<close>

theorem C8_counterexample:
  "lex latin1 ''%:x'' =
     Some [\<lparr>itemTyp = itemFieldName, itemPos = 0, itemVal = ''%'', itemLine = 1\<rparr>,
           \<lparr>itemTyp = itemError, itemPos = 2, itemVal = ''unknown header field %'',
             itemLine = 1\<rparr>]"
  by (simp add: scan_eval scan_loops bit_0 split del: if_split)

text \<open>
  Claim C8, as amended: for every text with no end-of-line character that does not begin with a
  colon and does not begin with the two characters of a compound marker (which
  \<open>lexBodyLine\<close> tests one character after the position), the input made of \<open>%\<close> and
  the text is scanned as exactly three items: the percent item, the comment item whose
  value is the text, and the end-of-input item.
\<close>

theorem C8_comment_line_amended:
  assumes "\<forall>c \<in> set content. c \<noteq> CHR 0x0A \<and> c \<noteq> CHR 0x0D"
    and "\<not> HasPrefix content '':''"
    and "compoundMarker content = None"
  shows "lex U (CHR ''%'' # content) =
           Some [\<lparr>itemTyp = itemPercent, itemPos = 0, itemVal = ''%'', itemLine = 1\<rparr>,
                 \<lparr>itemTyp = itemComment, itemPos = 1, itemVal = content, itemLine = 1\<rparr>,
                 \<lparr>itemTyp = itemEOF, itemPos = 1 + length content, itemVal = [], itemLine = 1\<rparr>]"
proof -
  define inp where "inp = CHR ''%'' # content"
  define l0 where "l0 = \<lparr>input = inp, pos = 0, start = 0, width = 0, items = [], line = 1\<rparr>"
  define percent where
    "percent = \<lparr>itemTyp = itemPercent, itemPos = 0, itemVal = ''%'', itemLine = 1\<rparr>"
  define comment where
    "comment = \<lparr>itemTyp = itemComment, itemPos = 1, itemVal = content, itemLine = 1\<rparr>"
  define l1 where "l1 = l0\<lparr>width := 1\<rparr>"
  define l2 where "l2 = l0\<lparr>width := 1, pos := 1, start := 1, items := [percent]\<rparr>"
  define l3 where
    "l3 = l0\<lparr>width := 0, pos := length inp, start := length inp, items := [percent, comment]\<rparr>"
  have d: "DecodeRuneInString inp = (37, 1)"
    using DecodeRuneInString_low [of "CHR ''%''" content] by (simp add: inp_def runeOf_def)
  have len: "length inp = Suc (length content)" and dr: "drop (Suc 0) inp = content"
    by (simp_all add: inp_def)
  have p0: "peek l0 = (37, l1)"
    by (simp add: peek_eq l0_def l1_def d len)
  have p1: "peek l1 = (37, l1)"
    by (simp add: peek_eq l0_def l1_def d len)
  have f1: "input l1 = inp" "pos l1 = 0"
    by (simp_all add: l1_def l0_def)
  have s1: "step U LexLine l0 = Some (Some LexBodyLine, l1)"
    using assms(2) by (simp add: step_def lexLine_def p0 eof_def f1 dr)
  define l1' where "l1' = l0\<lparr>width := 1, pos := 1\<rparr>"
  have n1: "lnext l1 = (37, l1')"
    by (simp add: lnext_def l1_def l1'_def l0_def d len)
  have e1: "emit itemPercent l1' = l2"
    by (simp add: emit_def l0_def l1'_def l2_def percent_def slice_def inp_def)
  have c1: "lexBodyChar U l1 = (Some LexComment, l2)"
    by (simp add: lexBodyChar_def n1 runeOf_def e1)
  have s2: "step U LexBodyLine l1 = Some (Some LexComment, l2)"
    using assms(3) by (simp add: step_def lexBodyLine_def p1 isEndOfLine_def IsDigit_def f1 dr c1)
  have "consumeToEndOfLine l2 = l2\<lparr>pos := length (input l2), width := 0\<rparr>"
    using assms(1) by (intro consumeToEndOfLine_run) (simp_all add: l2_def l0_def dr len)
  note c = this
  define l2' where
    "l2' = l0\<lparr>width := 0, pos := length inp, start := 1, items := [percent]\<rparr>"
  have c2: "consumeToEndOfLine l2 = l2'"
    using c by (simp add: l2_def l2'_def l0_def)
  have e2: "acceptNewline (emit itemComment l2') = l3"
    by (simp add: emit_def acceptNewline_def lnext_def l0_def l2'_def l3_def comment_def
          slice_def len dr)
  have s3: "step U LexComment l2 = Some (Some LexLine, l3)"
    by (simp add: step_def lexComment_def c2 e2 del: consumeToEndOfLine.simps)
  have p3: "peek l3 = (eof, l3)"
    by (simp add: peek_eq l3_def l0_def)
  define l4 where
    "l4 = l3\<lparr>items := [percent, comment,
             \<lparr>itemTyp = itemEOF, itemPos = 1 + length content, itemVal = [], itemLine = 1\<rparr>]\<rparr>"
  have e3: "emit itemEOF l3 = l4"
    by (simp add: emit_def l3_def l4_def l0_def slice_def len)
  have s4: "step U LexLine l3 = Some (None, l4)"
    by (simp add: step_def lexLine_def p3 e3)
  have "run U (Some LexLine) l0 = Some l4"
    by (simp add: run.simps [of U "Some LexLine" l0] run.simps [of U "Some LexBodyLine" l1]
          run.simps [of U "Some LexComment" l2] run.simps [of U "Some LexLine" l3]
          run.simps [of U None] s1 s2 s3 s4)
  then show ?thesis
    by (simp add: lex_def l0_def [symmetric] inp_def [symmetric] l4_def l3_def percent_def
          comment_def)
qed

theorem C8_witness:
  "lex latin1 ''%abc-2.1'' =
     Some [\<lparr>itemTyp = itemPercent, itemPos = 0, itemVal = ''%'', itemLine = 1\<rparr>,
           \<lparr>itemTyp = itemComment, itemPos = 1, itemVal = ''abc-2.1'', itemLine = 1\<rparr>,
           \<lparr>itemTyp = itemEOF, itemPos = 8, itemVal = [], itemLine = 1\<rparr>]"
proof -
  have 1: "\<forall>c \<in> set ''abc-2.1''. c \<noteq> CHR 0x0A \<and> c \<noteq> CHR 0x0D"
    by simp
  have 2: "\<not> HasPrefix ''abc-2.1'' '':''"
    by (simp add: HasPrefix_def)
  have 3: "compoundMarker ''abc-2.1'' = None"
    by (simp add: compoundMarker_def HasPrefix_def)
  from C8_comment_line_amended [OF 1 2 3, of latin1] show ?thesis
    by simp
qed

end
